theory Spec2Isabelle
  imports Main
begin

text \<open>
  A model of the BPMNEnv-Aware plugin of the Camunda Modeler: the kinds of tasks
  (\<open>TaskTypes.js\<close>, \<open>ExtensionService.js\<close>, \<open>TaskTypeService.js\<close>), the classification of
  message flows and its scheduling (\<open>SimpleBindingHandler.js\<close>), the advisory validation of
  a change of kind (\<open>ValidationService.js\<close>) and the assignments of a task
  (\<open>AssignmentService.js\<close>). Each function of the model has the name of the JavaScript
  function it follows. The definitions come first, the properties after them.
\<close>

section \<open>Extension elements and business objects\<close>

text \<open>
  The plugin stores all of its state as extension elements of a BPMN business object.
  An extension element is an object with a \<open>$type\<close> tag and a \<open>body\<close>; files of an older
  format carry the text in \<open>value\<close> instead. A property that a JavaScript object does not
  have (\<open>undefined\<close>) is \<open>None\<close>.
\<close>

record ext =
  etype :: string
  body :: "string option"
  legacy_value :: "string option"

text \<open>
  A \<open>bpmn:ExtensionElements\<close> container. Its \<open>values\<close> array may be missing: the code
  guards every read with \<open>?.values\<close> or \<open>|| []\<close>.
\<close>

datatype container = Container (cvalues: "ext list option")

text \<open>
  The business object of an element: its extension elements, its name, the id of its
  \<open>$parent\<close> (the owning process; \<open>None\<close> when there is no parent or the parent has no id) and,
  for a participant, the id of the process its \<open>processRef\<close> points to.
\<close>

record bo =
  extensionElements :: "container option"
  bo_name :: "string option"
  parent_id :: "string option"
  processRef_id :: "string option"

section \<open>TaskTypes.js\<close>

definition MOVEMENT :: string where "MOVEMENT = ''movement''"
definition BINDING :: string where "BINDING = ''binding''"
definition UNBINDING :: string where "UNBINDING = ''unbinding''"

definition EXT_TYPE :: string where "EXT_TYPE = ''space:Type''"
definition EXT_DESTINATION :: string where "EXT_DESTINATION = ''space:Destination''"
definition EXT_PARTICIPANT1 :: string where "EXT_PARTICIPANT1 = ''space:Participant1''"
definition EXT_PARTICIPANT2 :: string where "EXT_PARTICIPANT2 = ''space:Participant2''"
definition EXT_TASK_ASSIGNMENT :: string where
  "EXT_TASK_ASSIGNMENT = ''space:TaskAssignment''"
definition EXT_TASK_ASSIGNMENT_REACHED :: string where
  "EXT_TASK_ASSIGNMENT_REACHED = ''space:TaskAssignmentReached''"

text \<open>
  \<open>EXTENSION_TYPES\<close> has the six members above and no member \<open>BINDING\<close>: the expression
  \<open>EXTENSION_TYPES.BINDING\<close>, which TaskTypeService and ExtensionService read, is
  \<open>undefined\<close>.
\<close>

definition EXT_BINDING :: "string option" where "EXT_BINDING = None"

definition EXTENSION_TYPES_values :: "string list" where
  "EXTENSION_TYPES_values =
     [EXT_TYPE, EXT_DESTINATION, EXT_PARTICIPANT1, EXT_PARTICIPANT2,
      EXT_TASK_ASSIGNMENT, EXT_TASK_ASSIGNMENT_REACHED]"

record task_config =
  cfg_key :: string
  typeValue :: string
  displayName :: string
  cfg_extensionElements :: "string list"
  defaultDestination :: "string option"
  validationRules :: "string list"
  formType :: string

definition movement_config :: task_config where
  "movement_config = \<lparr>cfg_key = MOVEMENT, typeValue = ''Movement'',
     displayName = ''Move to destination'',
     cfg_extensionElements =
       [''space:Type'', ''space:Destination'', ''space:TaskAssignment'',
        ''space:TaskAssignmentReached''],
     defaultDestination = Some ''${destination}'',
     validationRules = [], formType = ''destination''\<rparr>"

definition binding_config :: task_config where
  "binding_config = \<lparr>cfg_key = BINDING, typeValue = ''Binding'',
     displayName = ''Binding'',
     cfg_extensionElements =
       [''space:Type'', ''space:TaskAssignment'', ''space:TaskAssignmentReached''],
     defaultDestination = None,
     validationRules = [], formType = ''none''\<rparr>"

definition unbinding_config :: task_config where
  "unbinding_config = \<lparr>cfg_key = UNBINDING, typeValue = ''Unbinding'',
     displayName = ''Unbinding'',
     cfg_extensionElements =
       [''space:Type'', ''space:TaskAssignment'', ''space:TaskAssignmentReached''],
     defaultDestination = None,
     validationRules = [''requiresUpstreamBinding''], formType = ''none''\<rparr>"

text \<open>
  \<open>TASK_TYPES_CONFIG\<close> is an object literal, and \<open>getTaskConfig\<close> reads it with
  \<open>TASK_TYPES_CONFIG[key]\<close>. A property read on an object literal also finds the members
  the literal inherits from \<open>Object.prototype\<close>; each of them is a function (or, for
  \<open>__proto__\<close>, the prototype object itself), so it is truthy and has none of the
  properties of a task configuration.
\<close>

definition Object_prototype_members :: "string list" where
  "Object_prototype_members =
     [''constructor'', ''hasOwnProperty'', ''isPrototypeOf'', ''propertyIsEnumerable'',
      ''toLocaleString'', ''toString'', ''valueOf'', ''__proto__'',
      ''__defineGetter__'', ''__defineSetter__'', ''__lookupGetter__'',
      ''__lookupSetter__'']"

datatype config_lookup = Undefined | Own task_config | Inherited

definition getTaskConfig :: "string \<Rightarrow> config_lookup" where
  "getTaskConfig key =
     (if key = MOVEMENT then Own movement_config
      else if key = BINDING then Own binding_config
      else if key = UNBINDING then Own unbinding_config
      else if key \<in> set Object_prototype_members then Inherited
      else Undefined)"

definition requiresValidation :: "string \<Rightarrow> string \<Rightarrow> bool" where
  "requiresValidation fromType toType =
     (if fromType = BINDING \<and> toType \<noteq> BINDING then True
      else if toType = UNBINDING then True
      else False)"

section \<open>ExtensionService.js\<close>

text \<open>
  \<open>String.prototype.toLowerCase\<close> on the ASCII letters. The results are only ever compared
  with the three lower-case ASCII keys, and no string with a character outside ASCII
  lower-cases to one of those keys, so the comparison is the same.
\<close>

definition lower_char :: "char \<Rightarrow> char" where
  "lower_char c =
     (case map_of (zip ''ABCDEFGHIJKLMNOPQRSTUVWXYZ'' ''abcdefghijklmnopqrstuvwxyz'') c of
        Some l \<Rightarrow> l
      | None \<Rightarrow> c)"

definition toLowerCase :: "string \<Rightarrow> string" where
  "toLowerCase s = map lower_char s"

text \<open>\<open>String(x)\<close> for a value that is a string or \<open>undefined\<close>.\<close>

definition String_of :: "string option \<Rightarrow> string" where
  "String_of x = (case x of None \<Rightarrow> ''undefined'' | Some s \<Rightarrow> s)"

definition getExtensionValues :: "bo \<Rightarrow> ext list" where
  "getExtensionValues b =
     (case extensionElements b of
        None \<Rightarrow> []
      | Some c \<Rightarrow> (case cvalues c of None \<Rightarrow> [] | Some vs \<Rightarrow> vs))"

definition findExtension :: "bo \<Rightarrow> string \<Rightarrow> ext option" where
  "findExtension b t = find (\<lambda>v. etype v = t) (getExtensionValues b)"

definition getText :: "ext option \<Rightarrow> string" where
  "getText element =
     (case element of
        None \<Rightarrow> ''''
      | Some e \<Rightarrow>
          (case body e of
             Some s \<Rightarrow> s
           | None \<Rightarrow> (case legacy_value e of Some s \<Rightarrow> s | None \<Rightarrow> '''')))"

definition ensureExtensionElements :: "bo \<Rightarrow> bo" where
  "ensureExtensionElements b =
     (if extensionElements b = None
      then b\<lparr>extensionElements := Some (Container (Some []))\<rparr>
      else b)"

text \<open>
  \<open>modeling.updateModdleProperties(element, ext, {body})\<close> writes the body of the object
  that \<open>find\<close> returned, the first one with the type.
\<close>

fun update_first :: "('a \<Rightarrow> bool) \<Rightarrow> ('a \<Rightarrow> 'a) \<Rightarrow> 'a list \<Rightarrow> 'a list" where
  "update_first P f [] = []"
| "update_first P f (x # xs) = (if P x then f x # xs else x # update_first P f xs)"

definition setValues :: "bo \<Rightarrow> ext list \<Rightarrow> bo" where
  "setValues b vs = b\<lparr>extensionElements := Some (Container (Some vs))\<rparr>"

definition setExtension :: "bo \<Rightarrow> string \<Rightarrow> string \<Rightarrow> bo" where
  "setExtension b0 t v =
     (let b = ensureExtensionElements b0 in
      case findExtension b t of
        None \<Rightarrow>
          setValues b
            (getExtensionValues b @ [\<lparr>etype = t, body = Some v, legacy_value = None\<rparr>])
      | Some e \<Rightarrow>
          setValues b
            (update_first (\<lambda>x. etype x = t) (\<lambda>x. x\<lparr>body := Some v\<rparr>)
               (getExtensionValues b)))"

definition removeExtensions :: "bo \<Rightarrow> (ext \<Rightarrow> bool) \<Rightarrow> bo" where
  "removeExtensions b predicate =
     (let existing = getExtensionValues b;
          keep = filter (\<lambda>v. \<not> predicate v) existing
      in if length keep \<noteq> length existing then setValues b keep else b)"

definition getCurrentType :: "bo \<Rightarrow> string" where
  "getCurrentType b =
     (case findExtension b EXT_TYPE of
        None \<Rightarrow> ''''
      | Some typeEl \<Rightarrow> toLowerCase (String_of (body typeEl)))"

definition getDestination :: "bo \<Rightarrow> string" where
  "getDestination b = getText (findExtension b EXT_DESTINATION)"

text \<open>
  \<open>getBinding\<close> looks for an extension whose \<open>$type\<close> is \<open>EXTENSION_TYPES.BINDING\<close>; with
  that expression \<open>undefined\<close> no extension matches.
\<close>

definition getBinding :: "bo \<Rightarrow> string" where
  "getBinding b =
     getText (case EXT_BINDING of None \<Rightarrow> None | Some t \<Rightarrow> findExtension b t)"

definition clearCustomExtensions :: "bo \<Rightarrow> bo" where
  "clearCustomExtensions b =
     removeExtensions b (\<lambda>v. etype v \<in> set EXTENSION_TYPES_values)"

section \<open>TaskTypeService.js\<close>

datatype error = UnknownTaskType string | TypeError

text \<open>
  What a call leaves behind: the exception it threw, if any, the business object as the
  call left it, the transition hooks it ran and the number of \<open>elements.changed\<close>
  notifications it fired.
\<close>

record outcome =
  thrown :: "error option"
  element :: bo
  hooks :: "string list"
  changed_fired :: nat

definition cleanupIncompatibleExtensions :: "bo \<Rightarrow> task_config \<Rightarrow> bo" where
  "cleanupIncompatibleExtensions b config =
     (let allowedTypes = EXT_TYPE # cfg_extensionElements config
      in removeExtensions b (\<lambda>v. \<not> (etype v \<in> set allowedTypes)))"

definition initializeExtensions :: "bo \<Rightarrow> task_config \<Rightarrow> bo" where
  "initializeExtensions b0 config =
     (let b1 =
        (if EXT_DESTINATION \<in> set (cfg_extensionElements config) then
           (let currentDestination = getDestination b0 in
            case defaultDestination config of
              Some d \<Rightarrow>
                (if currentDestination = [] \<and> d \<noteq> []
                 then setExtension b0 EXT_DESTINATION d else b0)
            | None \<Rightarrow> b0)
         else b0)
      in case EXT_BINDING of
           None \<Rightarrow> b1
         | Some t \<Rightarrow>
             (if t \<in> set (cfg_extensionElements config) then
                (if getBinding b1 = [] then setExtension b1 t [] else b1)
              else b1))"

text \<open>
  \<open>handleSpecificTransitions\<close> only writes to the console; it leaves the element as it is.
  The hooks it runs are returned by name.
\<close>

definition handleSpecificTransitions :: "string \<Rightarrow> string \<Rightarrow> string list" where
  "handleSpecificTransitions previousType newType =
     (if previousType = BINDING \<and> newType \<noteq> BINDING
      then [''handleBindingToOtherTransition''] else []) @
     (if previousType \<noteq> BINDING \<and> newType = BINDING
      then [''handleOtherToBindingTransition''] else []) @
     (if newType = MOVEMENT then [''handleMovementTransition''] else []) @
     (if previousType = MOVEMENT \<and> newType \<noteq> MOVEMENT
      then [''handleFromMovementTransition''] else [])"

definition handleTypeTransition :: "bo \<Rightarrow> task_config \<Rightarrow> bo" where
  "handleTypeTransition b config =
     initializeExtensions (cleanupIncompatibleExtensions b config) config"

text \<open>
  \<open>setTaskType\<close>. The guard \<open>if (!config) throw\<close> stops a key for which the lookup is
  \<open>undefined\<close>. For an inherited member the guard passes, the type is written, and
  \<open>cleanupIncompatibleExtensions\<close> then spreads \<open>config.extensionElements\<close>, which is
  \<open>undefined\<close>: a TypeError, thrown after the write.
\<close>

definition setTaskType :: "bo \<Rightarrow> string \<Rightarrow> outcome" where
  "setTaskType b typeKey =
     (case getTaskConfig typeKey of
        Undefined \<Rightarrow>
          \<lparr>thrown = Some (UnknownTaskType typeKey), element = b, hooks = [],
           changed_fired = 0\<rparr>
      | Inherited \<Rightarrow>
          \<lparr>thrown = Some TypeError, element = setExtension b EXT_TYPE typeKey, hooks = [],
           changed_fired = 0\<rparr>
      | Own config \<Rightarrow>
          (let previousType = getCurrentType b
           in \<lparr>thrown = None,
                element = handleTypeTransition (setExtension b EXT_TYPE typeKey) config,
                hooks = handleSpecificTransitions previousType typeKey,
                changed_fired = 1\<rparr>))"

definition clearTaskType :: "bo \<Rightarrow> outcome" where
  "clearTaskType b =
     \<lparr>thrown = None, element = clearCustomExtensions b, hooks = [], changed_fired = 1\<rparr>"

section \<open>SimpleBindingHandler.js: the connection classifier\<close>

text \<open>
  A diagram shape with its containment chain. Containment is a tree, so the chain of
  \<open>parent\<close> objects above a shape is finite and is part of the value; \<open>sref\<close> is the identity
  of the object (what \<open>===\<close> compares). Every shape of a BPMN diagram has a business
  object. A missing \<open>type\<close> is the empty string, which is falsy like \<open>undefined\<close>.
\<close>

datatype shape =
  Shape (sref: nat) (stype: string) (sid: string) (sbo: bo) (sparent: "shape option")

text \<open>
  A connection as the classifier reads it: its id and type, its business object (the code
  guards a missing one) and its two endpoints (either may be missing).
\<close>

record connection =
  cid :: string
  ctype :: string
  cbo :: "bo option"
  csource :: "shape option"
  ctarget :: "shape option"

text \<open>\<open>x || null\<close> for a string that may be \<open>undefined\<close>: the empty string is falsy.\<close>

definition or_null :: "string option \<Rightarrow> string option" where
  "or_null x = (case x of None \<Rightarrow> None | Some s \<Rightarrow> (if s = [] then None else Some s))"

definition storedBody :: "connection \<Rightarrow> string \<Rightarrow> string option" where
  "storedBody c t =
     (case cbo c of
        None \<Rightarrow> None
      | Some b \<Rightarrow>
          (case find (\<lambda>v. etype v = t) (getExtensionValues b) of
             None \<Rightarrow> None
           | Some e \<Rightarrow> or_null (body e)))"

definition getStoredType :: "connection \<Rightarrow> string option" where
  "getStoredType c = storedBody c EXT_TYPE"

definition getStoredParticipant1 :: "connection \<Rightarrow> string option" where
  "getStoredParticipant1 c = storedBody c EXT_PARTICIPANT1"

definition getStoredParticipant2 :: "connection \<Rightarrow> string option" where
  "getStoredParticipant2 c = storedBody c EXT_PARTICIPANT2"

definition hasConnectionData :: "bo option \<Rightarrow> bool" where
  "hasConnectionData businessObject =
     (case businessObject of
        None \<Rightarrow> False
      | Some b \<Rightarrow>
          list_ex (\<lambda>v. etype v = EXT_TYPE \<and> (body v = Some BINDING \<or> body v = Some UNBINDING))
            (getExtensionValues b))"

definition isConnectionData :: "ext \<Rightarrow> bool" where
  "isConnectionData v =
     (etype v = EXT_TYPE \<or> etype v = EXT_PARTICIPANT1 \<or> etype v = EXT_PARTICIPANT2)"

text \<open>
  \<open>clearConnectionData\<close> assigns the filtered array to \<open>extensionElements.values\<close>; it
  returns at once when there is no container or the container has no array.
\<close>

definition clearConnectionData :: "bo \<Rightarrow> bo" where
  "clearConnectionData b =
     (case extensionElements b of
        None \<Rightarrow> b
      | Some c \<Rightarrow>
          (case cvalues c of
             None \<Rightarrow> b
           | Some vs \<Rightarrow> setValues b (filter (\<lambda>v. \<not> isConnectionData v) vs)))"

text \<open>
  \<open>getParticipantId\<close>: the loop \<open>while (current && depth < 10)\<close>, with the number of
  iterations left as the first argument.
\<close>

fun participantWalk :: "nat \<Rightarrow> shape option \<Rightarrow> string option" where
  "participantWalk 0 current = None"
| "participantWalk (Suc n) None = None"
| "participantWalk (Suc n) (Some s) =
     (if stype s = ''bpmn:Participant'' then Some (sid s)
      else participantWalk n (sparent s))"

definition getParticipantId :: "shape option \<Rightarrow> string option" where
  "getParticipantId el = participantWalk 10 el"

definition determineConnectionType :: "connection \<Rightarrow> string option" where
  "determineConnectionType c =
     (case csource c of
        None \<Rightarrow> None
      | Some src \<Rightarrow>
          (case ctarget c of
             None \<Rightarrow> None
           | Some tgt \<Rightarrow>
               (if stype src = [] \<or> stype tgt = [] then None
                else if stype src \<noteq> ''bpmn:Task'' \<or> stype tgt \<noteq> ''bpmn:Task'' then None
                else
                  (let sourceType = getCurrentType (sbo src);
                       targetType = getCurrentType (sbo tgt)
                   in if sourceType = BINDING \<and> targetType = BINDING then Some BINDING
                      else if sourceType = UNBINDING \<and> targetType = UNBINDING
                      then Some UNBINDING
                      else None))))"

definition needsUpdate :: "connection \<Rightarrow> bool" where
  "needsUpdate c =
     (if cbo c = None then False
      else
        (let storedType = getStoredType c;
             storedSourceRef = getStoredParticipant1 c;
             storedTargetRef = getStoredParticipant2 c;
             currentType = determineConnectionType c;
             currentSourceRef = getParticipantId (csource c);
             currentTargetRef = getParticipantId (ctarget c)
         in storedType \<noteq> currentType \<or>
            storedSourceRef \<noteq> currentSourceRef \<or>
            storedTargetRef \<noteq> currentTargetRef))"

text \<open>
  The operations that change a connection return the connection as they leave it and the
  number of \<open>modeling.updateModdleProperties\<close> calls they made (the metadata writes that
  reach the model and raise a change notification).
\<close>

definition falsy :: "string option \<Rightarrow> bool" where
  "falsy x = (or_null x = None)"

text \<open>
  \<open>addConnectionData\<close>. Without a business object, or with a participant id that is
  \<open>null\<close> or empty, it returns before it touches anything. When the container exists
  without a \<open>values\<close> array, \<open>values.push\<close> throws inside the \<open>try\<close> and the \<open>catch\<close> only logs.
\<close>

definition addConnectionData :: "connection \<Rightarrow> string \<Rightarrow> connection \<times> nat" where
  "addConnectionData c connectionType =
     (case cbo c of
        None \<Rightarrow> (c, 0)
      | Some b \<Rightarrow>
          (let sourceParticipantId = getParticipantId (csource c);
               targetParticipantId = getParticipantId (ctarget c)
           in if falsy sourceParticipantId \<or> falsy targetParticipantId then (c, 0)
              else
                (let b1 = ensureExtensionElements b;
                     b2 = clearConnectionData b1
                 in case extensionElements b2 of
                      Some (Container (Some vs)) \<Rightarrow>
                        (c\<lparr>cbo := Some (setValues b2
                             (vs @
                              [\<lparr>etype = EXT_TYPE, body = Some connectionType,
                                legacy_value = None\<rparr>,
                               \<lparr>etype = EXT_PARTICIPANT1, body = sourceParticipantId,
                                legacy_value = None\<rparr>,
                               \<lparr>etype = EXT_PARTICIPANT2, body = targetParticipantId,
                                legacy_value = None\<rparr>]))\<rparr>, 1)
                    | _ \<Rightarrow> (c\<lparr>cbo := Some b2\<rparr>, 0))))"

definition clearAndUpdate :: "connection \<Rightarrow> connection \<times> nat" where
  "clearAndUpdate c =
     (case cbo c of
        None \<Rightarrow> (c, 0)
      | Some b \<Rightarrow> (c\<lparr>cbo := Some (clearConnectionData b)\<rparr>, 1))"

definition checkAndAddConnectionData :: "connection \<Rightarrow> connection \<times> nat" where
  "checkAndAddConnectionData c =
     (if \<not> needsUpdate c then (c, 0)
      else
        (case determineConnectionType c of
           Some connectionType \<Rightarrow> addConnectionData c connectionType
         | None \<Rightarrow> (if hasConnectionData (cbo c) then clearAndUpdate c else (c, 0))))"

definition updateConnectionData :: "connection \<Rightarrow> connection \<times> nat" where
  "updateConnectionData c =
     checkAndAddConnectionData (c\<lparr>cbo := map_option clearConnectionData (cbo c)\<rparr>)"

subsection \<open>The change scheduler\<close>

text \<open>
  The handler keeps the set of connection ids being processed and one timer handle,
  \<open>_updateTimeout\<close>. The browser's timer queue is part of the state: \<open>setTimeout\<close> adds a
  timer and returns a fresh non-zero handle, \<open>clearTimeout\<close> removes the timer with that
  handle if it is still pending. A timer that processes a connection carries the
  connection its closure captured.
\<close>

datatype timer_action = Process connection bool | Release string

record timer =
  handle :: nat
  due :: nat
  action :: timer_action

record handler =
  processingConnections :: "string set"
  updateTimeout :: "nat option"
  timers :: "timer list"
  nextHandle :: nat
  now :: nat
  reconciled :: "(connection \<times> nat) list"

definition initial_handler :: handler where
  "initial_handler =
     \<lparr>processingConnections = {}, updateTimeout = None, timers = [], nextHandle = 1,
      now = 0, reconciled = []\<rparr>"

definition setTimeout :: "handler \<Rightarrow> timer_action \<Rightarrow> nat \<Rightarrow> handler \<times> nat" where
  "setTimeout s a delay =
     (s\<lparr>timers := timers s @ [\<lparr>handle = nextHandle s, due = now s + delay, action = a\<rparr>],
        nextHandle := Suc (nextHandle s)\<rparr>, nextHandle s)"

definition clearTimeout :: "handler \<Rightarrow> nat \<Rightarrow> handler" where
  "clearTimeout s h = s\<lparr>timers := filter (\<lambda>t. handle t \<noteq> h) (timers s)\<rparr>"

definition scheduleUpdate :: "handler \<Rightarrow> connection \<Rightarrow> bool \<Rightarrow> handler" where
  "scheduleUpdate s c forceUpdate =
     (if cid c = [] then s
      else if cid c \<in> processingConnections s \<and> \<not> forceUpdate then s
      else
        (let s1 = (case updateTimeout s of
                     None \<Rightarrow> s
                   | Some h \<Rightarrow> (if h = 0 then s else clearTimeout s h));
             (s2, h) = setTimeout s1 (Process c forceUpdate) 50
         in s2\<lparr>updateTimeout := Some h\<rparr>))"

definition processConnection :: "handler \<Rightarrow> connection \<Rightarrow> bool \<Rightarrow> handler" where
  "processConnection s c forceUpdate =
     (if cid c = [] then s
      else
        (let s1 = s\<lparr>processingConnections := insert (cid c) (processingConnections s)\<rparr>;
             r = (if forceUpdate then updateConnectionData c
                  else checkAndAddConnectionData c);
             s2 = s1\<lparr>reconciled := reconciled s1 @ [r]\<rparr>
         in fst (setTimeout s2 (Release (cid c)) 100)))"

text \<open>The listeners: each schedules an update for the message flows it finds.\<close>

definition connection_added :: "handler \<Rightarrow> connection \<Rightarrow> handler" where
  "connection_added s c =
     (if ctype c = ''bpmn:MessageFlow'' then scheduleUpdate s c False else s)"

definition connection_reconnected :: "handler \<Rightarrow> connection \<Rightarrow> handler" where
  "connection_reconnected s c =
     (if ctype c = ''bpmn:MessageFlow'' then scheduleUpdate s c True else s)"

definition import_done :: "handler \<Rightarrow> connection list \<Rightarrow> handler" where
  "import_done s elementRegistry =
     (let messageFlows = filter (\<lambda>e. ctype e = ''bpmn:MessageFlow'') elementRegistry
      in foldl (\<lambda>s' flow. scheduleUpdate s' flow False) s messageFlows)"

text \<open>The callback of a timer.\<close>

definition fire :: "handler \<Rightarrow> timer_action \<Rightarrow> handler" where
  "fire s a =
     (case a of
        Process c forceUpdate \<Rightarrow> processConnection s c forceUpdate
      | Release i \<Rightarrow> s\<lparr>processingConnections := processingConnections s - {i}\<rparr>)"

text \<open>
  The pending timer that fires first: the earliest due time, and among equal due times
  the one set first.
\<close>

fun earliest :: "timer list \<Rightarrow> timer option" where
  "earliest [] = None"
| "earliest (t # ts) =
     (case earliest ts of
        None \<Rightarrow> Some t
      | Some u \<Rightarrow> (if due u < due t then Some u else Some t))"

definition timer_weight :: "timer \<Rightarrow> nat" where
  "timer_weight t = (case action t of Process c f \<Rightarrow> 2 | Release i \<Rightarrow> 1)"

text \<open>
  The event loop up to a deadline: fire the pending timers that are due by then, each at
  its due time, including the timers they set.
\<close>

function run_until :: "nat \<Rightarrow> handler \<Rightarrow> handler" where
  "run_until deadline s =
     (case earliest (timers s) of
        None \<Rightarrow> s\<lparr>now := max (now s) deadline\<rparr>
      | Some t \<Rightarrow>
          (if deadline < due t then s\<lparr>now := max (now s) deadline\<rparr>
           else run_until deadline
                  (fire (s\<lparr>timers := filter (\<lambda>u. handle u \<noteq> handle t) (timers s),
                           now := max (now s) (due t)\<rparr>) (action t))))"
  by pat_completeness auto
termination run_until
proof (relation "measure (\<lambda>(d, s). sum_list (map timer_weight (timers s)))")
  show "wf (measure (\<lambda>(d, s). sum_list (map timer_weight (timers s))))" by simp
next
  fix deadline and s :: handler and t
  assume e: "earliest (timers s) = Some t" and "\<not> deadline < due t"
  have mem: "earliest ts = Some u \<Longrightarrow> u \<in> set ts" for ts u
    by (induction ts arbitrary: u) (auto split: option.splits if_splits)
  have le: "sum_list (map timer_weight (filter P ts)) \<le> sum_list (map timer_weight ts)"
    for P ts
    by (induction ts) auto
  have drop: "u \<in> set ts \<Longrightarrow>
      sum_list (map timer_weight (filter (\<lambda>v. handle v \<noteq> handle u) ts)) + timer_weight u
        \<le> sum_list (map timer_weight ts)" for u ts
  proof (induction ts)
    case Nil
    then show ?case by simp
  next
    case (Cons v ts)
    show ?case
    proof (cases "handle v = handle u")
      case True
      have "timer_weight u = timer_weight v \<or> u \<in> set ts" using Cons.prems by auto
      then show ?thesis
      proof
        assume "timer_weight u = timer_weight v"
        then show ?thesis
          using True le [of "\<lambda>v. handle v \<noteq> handle u" ts] by simp
      next
        assume "u \<in> set ts"
        then show ?thesis using True Cons.IH by simp
      qed
    next
      case False
      then have "u \<in> set ts" using Cons.prems by auto
      then show ?thesis using False Cons.IH by simp
    qed
  qed
  let ?rest = "filter (\<lambda>u. handle u \<noteq> handle t) (timers s)"
  let ?s = "s\<lparr>timers := ?rest, now := max (now s) (due t)\<rparr>"
  have w: "sum_list (map timer_weight ?rest) + timer_weight t
             \<le> sum_list (map timer_weight (timers s))"
    using e by (intro drop mem)
  have "sum_list (map timer_weight (timers (fire ?s (action t))))
          < sum_list (map timer_weight (timers s))"
  proof (cases "action t")
    case (Process c f)
    then have "timer_weight t = 2" by (simp add: timer_weight_def)
    moreover have "sum_list (map timer_weight (timers (fire ?s (action t))))
                     \<le> sum_list (map timer_weight ?rest) + 1"
      using Process
      by (simp add: fire_def processConnection_def setTimeout_def Let_def timer_weight_def)
    ultimately show ?thesis using w by linarith
  next
    case (Release i)
    then have "timer_weight t = 1" by (simp add: timer_weight_def)
    moreover have "timers (fire ?s (action t)) = ?rest"
      using Release by (simp add: fire_def)
    ultimately show ?thesis using w by simp
  qed
  then show "((deadline, fire ?s (action t)), (deadline, s))
               \<in> measure (\<lambda>(d, s). sum_list (map timer_weight (timers s)))"
    by simp
qed

text \<open>
  The state in which nothing is in flight and every pending timer is the one that
  \<open>_updateTimeout\<close> names.
\<close>

definition single_timer :: "handler \<Rightarrow> bool" where
  "single_timer s =
     (processingConnections s = {} \<and> 0 < nextHandle s \<and>
      list_all (\<lambda>t. updateTimeout s = Some (handle t) \<and> handle t \<noteq> 0) (timers s))"

section \<open>ValidationService.js\<close>

text \<open>
  The validator walks the sequence flows, which may form cycles. A flow holds the
  addresses of its endpoints (the \<open>sref\<close> of the shape; \<open>None\<close> for a missing endpoint), and the
  element registry resolves an address to the element, with its incoming and outgoing
  connections. An address that resolves to nothing stands for a null reference.
\<close>

record flow =
  ftype :: string
  fsource :: "nat option"
  ftarget :: "nat option"

record node =
  shp :: shape
  incoming :: "flow list"
  outgoing :: "flow list"

type_synonym registry = "node list"

definition resolve :: "registry \<Rightarrow> nat option \<Rightarrow> node option" where
  "resolve reg a =
     (case a of None \<Rightarrow> None | Some r \<Rightarrow> find (\<lambda>n. sref (shp n) = r) reg)"

definition getContainingParticipant :: "registry \<Rightarrow> node \<Rightarrow> node option" where
  "getContainingParticipant reg el =
     (case parent_id (sbo (shp el)) of
        None \<Rightarrow> None
      | Some process_id \<Rightarrow>
          (if process_id = [] then None
           else find (\<lambda>e. stype (shp e) = ''bpmn:Participant'' \<and>
                          processRef_id (sbo (shp e)) = Some process_id) reg))"

fun isDescendantOf :: "shape \<Rightarrow> shape \<Rightarrow> bool" where
  "isDescendantOf (Shape r t i b p) ancestor =
     (if r = sref ancestor then True
      else (case p of None \<Rightarrow> False | Some q \<Rightarrow> isDescendantOf q ancestor))"

text \<open>
  \<open>findUpstreamBindingTasks\<close> and \<open>findDependentUnbindingTasks\<close> are the same loop: the
  first follows \<open>incoming\<close> flows to their \<open>source\<close> and collects Binding tasks, the second
  follows \<open>outgoing\<close> flows to their \<open>target\<close> and collects Unbinding tasks.
\<close>

datatype direction = Upstream | Downstream

definition flows_of :: "direction \<Rightarrow> node \<Rightarrow> flow list" where
  "flows_of d n = (case d of Upstream \<Rightarrow> incoming n | Downstream \<Rightarrow> outgoing n)"

definition far_end :: "direction \<Rightarrow> flow \<Rightarrow> nat option" where
  "far_end d f = (case d of Upstream \<Rightarrow> fsource f | Downstream \<Rightarrow> ftarget f)"

definition wanted_kind :: "direction \<Rightarrow> string" where
  "wanted_kind d = (case d of Upstream \<Rightarrow> BINDING | Downstream \<Rightarrow> UNBINDING)"

text \<open>
  The body of the \<open>for\<close> loop: the far ends of the node's sequence flows that exist and
  lie inside the pool, in the order of the flows. Each of them is pushed on the stack.
\<close>

definition neighbours :: "registry \<Rightarrow> shape \<Rightarrow> direction \<Rightarrow> node \<Rightarrow> node list" where
  "neighbours reg pool d n =
     filter (\<lambda>s. isDescendantOf (shp s) pool)
       (List.map_filter (\<lambda>f. resolve reg (far_end d f))
          (filter (\<lambda>c. ftype c = ''bpmn:SequenceFlow'') (flows_of d n)))"

definition collected :: "direction \<Rightarrow> node \<Rightarrow> bool" where
  "collected d s =
     (stype (shp s) = ''bpmn:Task'' \<and> getCurrentType (sbo (shp s)) = wanted_kind d)"

text \<open>
  The \<open>while (stack.length)\<close> loop. The head of the list is the top of the stack, so
  pushing the far ends one after the other puts the last one on top. \<open>visited\<close> holds ids.
\<close>

function traverse ::
  "registry \<Rightarrow> shape \<Rightarrow> direction \<Rightarrow> node list \<Rightarrow> string list \<Rightarrow> node list \<Rightarrow> node list"
where
  "traverse reg pool d [] visited acc = acc"
| "traverse reg pool d (n # stack) visited acc =
     (if sid (shp n) \<in> set visited then traverse reg pool d stack visited acc
      else
        (let ns = neighbours reg pool d n
         in traverse reg pool d (rev ns @ stack) (sid (shp n) # visited)
              (acc @ filter (collected d) ns)))"
  by pat_completeness auto

termination traverse
proof (relation "measures
    [\<lambda>(reg, pool, d, stack, visited, acc).
        card ((\<lambda>n. sid (shp n)) ` (set reg \<union> set stack) - set visited),
     \<lambda>(reg, pool, d, stack, visited, acc). length stack]")
  show "wf (measures
    [\<lambda>(reg, pool, d, stack, visited, acc).
        card ((\<lambda>n. sid (shp n)) ` (set reg \<union> set stack) - set visited),
     \<lambda>(reg, pool, d, stack, visited, acc). length (stack :: node list)])"
    by simp
next
  fix reg :: registry and pool :: shape and d :: direction and n :: node
    and stack :: "node list" and visited :: "string list" and acc :: "node list"
  assume "sid (shp n) \<in> set visited"
  have "(\<lambda>n. sid (shp n)) ` (set reg \<union> set stack) - set visited
          \<subseteq> (\<lambda>n. sid (shp n)) ` (set reg \<union> set (n # stack)) - set visited"
    by auto
  then have "card ((\<lambda>n. sid (shp n)) ` (set reg \<union> set stack) - set visited)
          \<le> card ((\<lambda>n. sid (shp n)) ` (set reg \<union> set (n # stack)) - set visited)"
    by (intro card_mono) auto
  then show "((reg, pool, d, stack, visited, acc), (reg, pool, d, n # stack, visited, acc))
      \<in> measures
    [\<lambda>(reg, pool, d, stack, visited, acc).
        card ((\<lambda>n. sid (shp n)) ` (set reg \<union> set stack) - set visited),
     \<lambda>(reg, pool, d, stack, visited, acc). length stack]"
    by auto
next
  fix reg :: registry and pool :: shape and d :: direction and n :: node
    and stack :: "node list" and visited :: "string list" and acc :: "node list"
    and ns :: "node list"
  assume new: "sid (shp n) \<notin> set visited" and ns: "ns = neighbours reg pool d n"
  have res: "resolve reg a = Some m \<Longrightarrow> m \<in> set reg" for a m
    by (auto simp: resolve_def find_Some_iff split: option.splits)
  have sub: "set ns \<subseteq> set reg"
    unfolding ns neighbours_def by (auto simp: List.map_filter_def dest: res)
  let ?f = "\<lambda>n. sid (shp n)"
  have "?f ` (set reg \<union> set (rev ns @ stack)) - set (?f n # visited)
          \<subset> ?f ` (set reg \<union> set (n # stack)) - set visited"
    using sub new by auto
  then have "card (?f ` (set reg \<union> set (rev ns @ stack)) - set (?f n # visited))
          < card (?f ` (set reg \<union> set (n # stack)) - set visited)"
    by (intro psubset_card_mono) auto
  then show "((reg, pool, d, rev ns @ stack, sid (shp n) # visited,
       acc @ filter (collected d) ns),
      (reg, pool, d, n # stack, visited, acc))
      \<in> measures
    [\<lambda>(reg, pool, d, stack, visited, acc).
        card ((\<lambda>n. sid (shp n)) ` (set reg \<union> set stack) - set visited),
     \<lambda>(reg, pool, d, stack, visited, acc). length stack]"
    by simp
qed

definition findUpstreamBindingTasks :: "registry \<Rightarrow> node \<Rightarrow> node list" where
  "findUpstreamBindingTasks reg el =
     (case getContainingParticipant reg el of
        None \<Rightarrow> []
      | Some pool \<Rightarrow> traverse reg (shp pool) Upstream [el] [] [])"

definition findDependentUnbindingTasks :: "registry \<Rightarrow> node \<Rightarrow> node list" where
  "findDependentUnbindingTasks reg bindingElement =
     (case getContainingParticipant reg bindingElement of
        None \<Rightarrow> []
      | Some pool \<Rightarrow> traverse reg (shp pool) Downstream [bindingElement] [] [])"

record warning =
  wtype :: string
  severity :: string
  message :: string
  suggestion :: string
  affectedTasks :: "node list option"

text \<open>\<open>Array.prototype.join\<close>.\<close>

fun join :: "string \<Rightarrow> string list \<Rightarrow> string" where
  "join sep [] = []"
| "join sep [x] = x"
| "join sep (x # y # ys) = x @ sep @ join sep (y # ys)"

text \<open>\<open>task.businessObject.name || task.id\<close>.\<close>

definition name_or_id :: "node \<Rightarrow> string" where
  "name_or_id task =
     (case or_null (bo_name (sbo (shp task))) of
        Some n \<Rightarrow> n
      | None \<Rightarrow> sid (shp task))"

definition getUpstreamBindingWarning ::
  "registry \<Rightarrow> node \<Rightarrow> (string \<Rightarrow> string) \<Rightarrow> warning option" where
  "getUpstreamBindingWarning reg el translate =
     (let upstreamBindings = findUpstreamBindingTasks reg el
      in if length upstreamBindings = 0 then
           Some \<lparr>wtype = ''missing_upstream_binding'', severity = ''warning'',
             message = translate (''No preceding Binding task found in the same pool. '' @
               ''Consider adding a Binding task before this Unbinding.''),
             suggestion = translate (''Add a Binding task earlier in the flow to '' @
               ''establish what should be unbound.''),
             affectedTasks = None\<rparr>
         else None)"

definition getDownstreamUnbindingWarning ::
  "registry \<Rightarrow> node \<Rightarrow> (string \<Rightarrow> string) \<Rightarrow> string \<Rightarrow> string \<Rightarrow> warning option" where
  "getDownstreamUnbindingWarning reg el translate currentType newTypeKey =
     (if currentType = BINDING \<and> newTypeKey \<noteq> BINDING then
        (let dependentUnbindings = findDependentUnbindingTasks reg el
         in if length dependentUnbindings > 0 then
              (let taskNames = join '', '' (take 3 (map name_or_id dependentUnbindings));
                   suffix = (if length dependentUnbindings > 3 then ''...'' else [])
               in Some \<lparr>wtype = ''orphaned_unbinding'', severity = ''warning'',
                    message = translate (''This change will leave Unbinding tasks without '' @
                      ''a corresponding Binding: '' @ taskNames @ suffix),
                    suggestion = translate (''Consider changing those Unbinding tasks to a '' @
                      ''different type or keeping this as a Binding task.''),
                    affectedTasks = Some dependentUnbindings\<rparr>)
            else None)
      else None)"

definition getBindingChangeWarning ::
  "registry \<Rightarrow> node \<Rightarrow> (string \<Rightarrow> string) \<Rightarrow> warning option" where
  "getBindingChangeWarning reg el translate =
     (let dependentUnbindings = findDependentUnbindingTasks reg el
      in if length dependentUnbindings > 0 then
           (let taskInfo =
              join '', '' (map (\<lambda>task. CHR 0x22 # name_or_id task @ [CHR 0x22])
                             dependentUnbindings)
            in Some \<lparr>wtype = ''binding_change_impact'', severity = ''info'',
                 message = translate (''Changing this Binding will affect these Unbinding '' @
                   ''tasks: '' @ taskInfo),
                 suggestion = translate
                   ''Make sure this change aligns with your process design.'',
                 affectedTasks = Some dependentUnbindings\<rparr>)
         else None)"

definition applyValidationWarning ::
  "registry \<Rightarrow> node \<Rightarrow> string \<Rightarrow> (string \<Rightarrow> string) \<Rightarrow> string \<Rightarrow> string \<Rightarrow> warning option"
where
  "applyValidationWarning reg el rule translate currentType newTypeKey =
     (if rule = ''requiresUpstreamBinding'' then getUpstreamBindingWarning reg el translate
      else if rule = ''noDownstreamUnbinding''
      then getDownstreamUnbindingWarning reg el translate currentType newTypeKey
      else None)"

text \<open>
  \<open>getValidationWarnings\<close> reads \<open>config.validationRules\<close> of the configuration of the
  new type without a guard: for a key that is no configuration the read or the iteration
  throws.
\<close>

definition getValidationWarnings ::
  "registry \<Rightarrow> node \<Rightarrow> string \<Rightarrow> string \<Rightarrow> (string \<Rightarrow> string) \<Rightarrow> error + warning list"
where
  "getValidationWarnings reg el newTypeKey currentType translate =
     (case getTaskConfig newTypeKey of
        Undefined \<Rightarrow> Inl TypeError
      | Inherited \<Rightarrow> Inl TypeError
      | Own config \<Rightarrow>
          Inr (List.map_filter
                 (\<lambda>rule. applyValidationWarning reg el rule translate currentType newTypeKey)
                 (validationRules config) @
               (if currentType = BINDING \<and> newTypeKey \<noteq> BINDING then
                  (case getBindingChangeWarning reg el translate of
                     Some bindingWarning \<Rightarrow> [bindingWarning]
                   | None \<Rightarrow> [])
                else [])))"

record validation =
  valid :: bool
  verror :: "string option"
  vwarning :: "string option"
  vseverity :: "string option"
  allWarnings :: "warning list"

definition valid_plain :: validation where
  "valid_plain =
     \<lparr>valid = True, verror = None, vwarning = None, vseverity = None, allWarnings = []\<rparr>"

definition validateTypeChange ::
  "registry \<Rightarrow> node \<Rightarrow> string \<Rightarrow> (string \<Rightarrow> string) \<Rightarrow> error + validation" where
  "validateTypeChange reg el newTypeKey translate =
     (if getTaskConfig newTypeKey = Undefined then
        Inr \<lparr>valid = False, verror = Some (translate ''Invalid task type''),
             vwarning = None, vseverity = None, allWarnings = []\<rparr>
      else
        (let currentType = getCurrentType (sbo (shp el))
         in if currentType = newTypeKey then Inr valid_plain
            else if \<not> requiresValidation currentType newTypeKey then Inr valid_plain
            else
              (case getValidationWarnings reg el newTypeKey currentType translate of
                 Inl e \<Rightarrow> Inl e
               | Inr warnings \<Rightarrow>
                   (case warnings of
                      [] \<Rightarrow> Inr valid_plain
                    | w # ws \<Rightarrow>
                        Inr \<lparr>valid = True, verror = None, vwarning = Some (message w),
                             vseverity = Some (severity w), allWarnings = warnings\<rparr>))))"

section \<open>AssignmentService.js\<close>

text \<open>
  An assignment is a condition and a value, kept as two extension elements of two types
  and paired by position. The \<open>id\<close> that \<open>getAssignments\<close> gives an assignment is
  \<open>assignment_\<close> followed by its index; the index stands for it.
\<close>

record assignment =
  aindex :: nat
  condition :: string
  avalue :: string

definition isCondition :: "ext \<Rightarrow> bool" where
  "isCondition e = (etype e = EXT_TASK_ASSIGNMENT)"

definition isReached :: "ext \<Rightarrow> bool" where
  "isReached e = (etype e = EXT_TASK_ASSIGNMENT_REACHED)"

definition getAssignments :: "bo \<Rightarrow> assignment list" where
  "getAssignments b =
     (let extensions = getExtensionValues b;
          conditions = filter isCondition extensions;
          vals = filter isReached extensions;
          maxLength = max (length conditions) (length vals)
      in map (\<lambda>i. \<lparr>aindex = i,
                    condition = (if i < length conditions
                                 then getText (Some (conditions ! i)) else []),
                    avalue = (if i < length vals
                              then getText (Some (vals ! i)) else [])\<rparr>)
           [0..<maxLength])"

definition addAssignment :: "bo \<Rightarrow> string \<Rightarrow> string \<Rightarrow> bo" where
  "addAssignment b0 cond val =
     (let b = ensureExtensionElements b0;
          conditionExt = \<lparr>etype = EXT_TASK_ASSIGNMENT, body = Some cond,
                          legacy_value = None\<rparr>;
          valueExt = \<lparr>etype = EXT_TASK_ASSIGNMENT_REACHED, body = Some val,
                      legacy_value = None\<rparr>
      in setValues b (getExtensionValues b @ [conditionExt, valueExt]))"

text \<open>
  \<open>updateAssignment\<close> and \<open>removeAssignment\<close> pick the objects \<open>conditions[index]\<close> and
  \<open>values[index]\<close> and then work on those very objects (\<open>toRemove.includes(ext)\<close> compares
  identities). Every slot of the array holds an object of its own, so an object is
  modelled by its slot number paired with its content.
\<close>

definition slots :: "ext list \<Rightarrow> (nat \<times> ext) list" where
  "slots extensions = enumerate 0 extensions"

definition nth_opt :: "'a list \<Rightarrow> nat \<Rightarrow> 'a list" where
  "nth_opt xs i = (if i < length xs then [xs ! i] else [])"

definition removeAssignment :: "bo \<Rightarrow> nat \<Rightarrow> bo" where
  "removeAssignment b index =
     (let extensions = slots (getExtensionValues b);
          conditions = filter (\<lambda>x. isCondition (snd x)) extensions;
          vals = filter (\<lambda>x. isReached (snd x)) extensions;
          toRemove = nth_opt conditions index @ nth_opt vals index;
          newValues = filter (\<lambda>x. \<not> (x \<in> set toRemove)) extensions
      in if extensionElements b = None then b
         else setValues b (map snd newValues))"

definition updateAssignment :: "bo \<Rightarrow> nat \<Rightarrow> string \<Rightarrow> string \<Rightarrow> bo" where
  "updateAssignment b index cond val =
     (let extensions = slots (getExtensionValues b);
          conditions = filter (\<lambda>x. isCondition (snd x)) extensions;
          vals = filter (\<lambda>x. isReached (snd x)) extensions;
          cs = nth_opt conditions index;
          vs = nth_opt vals index
      in if cs = [] \<and> vs = [] then b
         else setValues b
                (map (\<lambda>x. if x \<in> set cs then (snd x)\<lparr>body := Some cond\<rparr>
                          else if x \<in> set vs then (snd x)\<lparr>body := Some val\<rparr>
                          else snd x) extensions))"

definition clearAssignments :: "bo \<Rightarrow> bo" where
  "clearAssignments b = removeExtensions b (\<lambda>v. isCondition v \<or> isReached v)"

definition getAssignmentCount :: "bo \<Rightarrow> nat" where
  "getAssignmentCount b = length (getAssignments b)"

text \<open>
  The mutations of a task's assignments that the services offer, and a run of them.
\<close>

datatype mutation =
    AddAssignment string string
  | UpdateAssignment nat string string
  | RemoveAssignment nat
  | ClearAssignments
  | SetTaskType string
  | ClearTaskType

fun mutate :: "bo \<Rightarrow> mutation \<Rightarrow> bo" where
  "mutate b (AddAssignment c v) = addAssignment b c v"
| "mutate b (UpdateAssignment i c v) = updateAssignment b i c v"
| "mutate b (RemoveAssignment i) = removeAssignment b i"
| "mutate b ClearAssignments = clearAssignments b"
| "mutate b (SetTaskType k) = element (setTaskType b k)"
| "mutate b ClearTaskType = element (clearTaskType b)"

definition conditionCount :: "bo \<Rightarrow> nat" where
  "conditionCount b = length (filter isCondition (getExtensionValues b))"

definition reachedCount :: "bo \<Rightarrow> nat" where
  "reachedCount b = length (filter isReached (getExtensionValues b))"

section \<open>Observations and example diagrams\<close>

text \<open>
  The classification metadata a connection carries: the entries of the three types
  \<open>space:Type\<close>, \<open>space:Participant1\<close> and \<open>space:Participant2\<close>.
\<close>

definition storedConnectionData :: "connection \<Rightarrow> ext list" where
  "storedConnectionData c =
     (case cbo c of None \<Rightarrow> [] | Some b \<Rightarrow> filter isConnectionData (getExtensionValues b))"

text \<open>A business object with the given extension elements and owning process.\<close>

definition mk_bo :: "ext list \<Rightarrow> string \<Rightarrow> bo" where
  "mk_bo vs process_id =
     \<lparr>extensionElements = Some (Container (Some vs)), bo_name = None,
      parent_id = Some process_id, processRef_id = None\<rparr>"

definition mk_ext :: "string \<Rightarrow> string \<Rightarrow> ext" where
  "mk_ext t b = \<lparr>etype = t, body = Some b, legacy_value = None\<rparr>"

text \<open>A pool for a process, and a task inside a pool.\<close>

definition mk_pool :: "nat \<Rightarrow> string \<Rightarrow> string \<Rightarrow> shape" where
  "mk_pool r i process_id =
     Shape r ''bpmn:Participant'' i
       \<lparr>extensionElements = None, bo_name = None, parent_id = None,
        processRef_id = Some process_id\<rparr> None"

definition mk_task :: "nat \<Rightarrow> string \<Rightarrow> ext list \<Rightarrow> string \<Rightarrow> shape \<Rightarrow> shape" where
  "mk_task r i vs process_id pool = Shape r ''bpmn:Task'' i (mk_bo vs process_id) (Some pool)"

definition pool_1 :: shape where "pool_1 = mk_pool 1 ''Pool_1'' ''Process_1''"
definition pool_2 :: shape where "pool_2 = mk_pool 2 ''Pool_2'' ''Process_2''"

text \<open>
  Two tasks in two pools joined by a message flow \<open>X \<rightarrow> Y\<close>, with the kinds of the tasks
  and the stored metadata of the flow as parameters.
\<close>

definition message_flow :: "ext list \<Rightarrow> ext list \<Rightarrow> ext list \<Rightarrow> connection" where
  "message_flow kind_x kind_y stored =
     \<lparr>cid = ''Flow_1'', ctype = ''bpmn:MessageFlow'',
      cbo = Some \<lparr>extensionElements = Some (Container (Some stored)), bo_name = None,
                  parent_id = None, processRef_id = None\<rparr>,
      csource = Some (mk_task 3 ''Task_X'' kind_x ''Process_1'' pool_1),
      ctarget = Some (mk_task 4 ''Task_Y'' kind_y ''Process_2'' pool_2)\<rparr>"

definition binding_data :: "ext list" where
  "binding_data =
     [mk_ext ''space:Type'' ''binding'', mk_ext ''space:Participant1'' ''Pool_1'',
      mk_ext ''space:Participant2'' ''Pool_2'']"

text \<open>
  The pool \<open>P\<close> of section 8 of the specification, with the sequence flows
  \<open>A \<rightarrow> B \<rightarrow> C\<close>: \<open>A\<close> is a Binding task, \<open>B\<close> has no kind, \<open>C\<close> is an Unbinding task.
\<close>

definition seq :: "nat \<Rightarrow> nat \<Rightarrow> flow" where
  "seq a b = \<lparr>ftype = ''bpmn:SequenceFlow'', fsource = Some a, ftarget = Some b\<rparr>"

definition pool_P :: node where
  "pool_P = \<lparr>shp = mk_pool 1 ''Pool_P'' ''Process_1'', incoming = [], outgoing = []\<rparr>"

definition task_A :: node where
  "task_A = \<lparr>shp = mk_task 2 ''Task_A'' [mk_ext ''space:Type'' ''binding''] ''Process_1''
                    (shp pool_P),
              incoming = [], outgoing = [seq 2 3]\<rparr>"

definition task_B :: node where
  "task_B = \<lparr>shp = mk_task 3 ''Task_B'' [] ''Process_1'' (shp pool_P),
              incoming = [seq 2 3], outgoing = [seq 3 4]\<rparr>"

definition task_C :: node where
  "task_C = \<lparr>shp = mk_task 4 ''Task_C'' [mk_ext ''space:Type'' ''unbinding''] ''Process_1''
                    (shp pool_P),
              incoming = [seq 3 4], outgoing = []\<rparr>"

definition chain_registry :: registry where
  "chain_registry = [pool_P, task_A, task_B, task_C]"

text \<open>
  The same pool in a registry that lists the elements in another order, after the pool
  of another process.
\<close>

definition pool_Q :: node where
  "pool_Q = \<lparr>shp = mk_pool 9 ''Pool_Q'' ''Process_2'', incoming = [], outgoing = []\<rparr>"

definition two_pool_registry :: registry where
  "two_pool_registry = [pool_Q, task_C, task_B, task_A, pool_P]"

text \<open>
  A loop in a pool: the Binding task \<open>T\<close> is followed by the task \<open>U\<close>, and a sequence flow
  leads from \<open>U\<close> back to \<open>T\<close>.
\<close>

definition task_T :: node where
  "task_T = \<lparr>shp = mk_task 2 ''Task_T'' [mk_ext ''space:Type'' ''binding''] ''Process_1''
                    (shp pool_P),
              incoming = [seq 3 2], outgoing = [seq 2 3]\<rparr>"

definition task_U :: node where
  "task_U = \<lparr>shp = mk_task 3 ''Task_U'' [] ''Process_1'' (shp pool_P),
              incoming = [seq 2 3], outgoing = [seq 3 2]\<rparr>"

definition loop_registry :: registry where
  "loop_registry = [pool_P, task_T, task_U]"

text \<open>
  One step backwards along a sequence flow, from an element of the list to the source
  of one of its incoming sequence flows, and any number of such steps, at least one.
\<close>

inductive reaches :: "node list \<Rightarrow> nat \<Rightarrow> nat \<Rightarrow> bool" for ns :: "node list" where
  step: "n \<in> set ns \<Longrightarrow> f \<in> set (incoming n) \<Longrightarrow> ftype f = ''bpmn:SequenceFlow'' \<Longrightarrow>
         fsource f = Some a \<Longrightarrow> reaches ns (sref (shp n)) a"
| trans: "reaches ns x y \<Longrightarrow> reaches ns y z \<Longrightarrow> reaches ns x z"

text \<open>Two message flows of an imported diagram.\<close>

definition flow_1 :: connection where
  "flow_1 = message_flow [mk_ext ''space:Type'' ''binding'']
              [mk_ext ''space:Type'' ''binding''] []"

definition flow_2 :: connection where
  "flow_2 = (message_flow [mk_ext ''space:Type'' ''unbinding'']
               [mk_ext ''space:Type'' ''unbinding''] [])\<lparr>cid := ''Flow_2''\<rparr>"

text \<open>A task that has no extension elements at all.\<close>

definition bare_task :: bo where
  "bare_task =
     \<lparr>extensionElements = None, bo_name = None, parent_id = Some ''Process_1'',
      processRef_id = None\<rparr>"

text \<open>
  The elements that \<open>getParticipantId\<close> may look at: an element and the chain of its
  parents, nearest first.
\<close>

fun chain_of :: "shape \<Rightarrow> shape list" where
  "chain_of (Shape r t i b p) =
     Shape r t i b p # (case p of None \<Rightarrow> [] | Some q \<Rightarrow> chain_of q)"

definition containment_chain :: "shape option \<Rightarrow> shape list" where
  "containment_chain el = (case el of None \<Rightarrow> [] | Some s \<Rightarrow> chain_of s)"

text \<open>
  The diagram seen from an element, without any lookup: the sources that its incoming
  sequence flows name, in the order of the flows, and whether an address is the one of a
  registered element that is the pool \<open>p\<close> or has it among its parents.
\<close>

definition sequence_sources :: "node \<Rightarrow> nat option list" where
  "sequence_sources n =
     map fsource (filter (\<lambda>f. ftype f = ''bpmn:SequenceFlow'') (incoming n))"

definition in_pool :: "registry \<Rightarrow> node \<Rightarrow> nat option \<Rightarrow> bool" where
  "in_pool reg p s =
     list_ex (\<lambda>e. s = Some (sref (shp e)) \<and> sref (shp p) \<in> sref ` set (chain_of (shp e))) reg"

text \<open>
  The pool of the chain \<open>A \<rightarrow> B \<rightarrow> C\<close> with flows that the search must not follow: a
  sequence flow into \<open>B\<close> from the Binding task \<open>D\<close> of the other pool, a message flow into
  \<open>C\<close> from the Binding task \<open>E\<close> of the same pool, and a sequence flow into \<open>C\<close> that has
  no source.
\<close>

definition task_D :: node where
  "task_D = \<lparr>shp = mk_task 10 ''Task_D'' [mk_ext ''space:Type'' ''binding''] ''Process_2''
                    (shp pool_Q),
              incoming = [], outgoing = [seq 10 3]\<rparr>"

definition task_E :: node where
  "task_E = \<lparr>shp = mk_task 11 ''Task_E'' [mk_ext ''space:Type'' ''binding''] ''Process_1''
                    (shp pool_P),
              incoming = [],
              outgoing = [\<lparr>ftype = ''bpmn:MessageFlow'', fsource = Some 11, ftarget = Some 4\<rparr>]\<rparr>"

definition task_B_fed :: node where
  "task_B_fed = task_B\<lparr>incoming := [seq 10 3, seq 2 3]\<rparr>"

definition task_C_fed :: node where
  "task_C_fed = task_C\<lparr>incoming :=
     [\<lparr>ftype = ''bpmn:MessageFlow'', fsource = Some 11, ftarget = Some 4\<rparr>, seq 3 4,
      \<lparr>ftype = ''bpmn:SequenceFlow'', fsource = None, ftarget = Some 4\<rparr>]\<rparr>"

definition crossing_registry :: registry where
  "crossing_registry = [pool_Q, task_D, task_E, task_C_fed, task_B_fed, task_A, pool_P]"

section \<open>Reading and writing extension elements\<close>

lemma getExtensionValues_setValues [simp]: "getExtensionValues (setValues b vs) = vs"
  by (simp add: getExtensionValues_def setValues_def)

lemma getExtensionValues_ensure [simp]:
  "getExtensionValues (ensureExtensionElements b) = getExtensionValues b"
  by (simp add: getExtensionValues_def ensureExtensionElements_def)

lemma filter_all_length: "length (filter P xs) = length xs \<Longrightarrow> filter P xs = xs"
proof -
  assume eq: "length (filter P xs) = length xs"
  have "P x" if "x \<in> set xs" for x
    using length_filter_less [of x xs P] that eq by auto
  then show ?thesis by simp
qed

text \<open>\<open>removeExtensions\<close> leaves exactly the elements the predicate rejects.\<close>

lemma values_removeExtensions [simp]:
  "getExtensionValues (removeExtensions b p) = filter (\<lambda>v. \<not> p v) (getExtensionValues b)"
  by (auto simp: removeExtensions_def Let_def dest: filter_all_length)

lemma find_update_first:
  "find Q xs = Some e \<Longrightarrow> Q (f e) \<Longrightarrow> find Q (update_first Q f xs) = Some (f e)"
  by (induction xs) (auto split: if_splits)

lemma find_append_new:
  "find P xs = None \<Longrightarrow> P y \<Longrightarrow> find P (xs @ [y]) = Some y"
  by (induction xs) (auto split: if_splits)

lemma find_append_other: "\<not> P y \<Longrightarrow> find P (xs @ [y]) = find P xs"
  by (induction xs) auto

lemma find_update_first_other:
  "(\<And>x. Q x \<Longrightarrow> \<not> P x \<and> \<not> P (f x)) \<Longrightarrow> find P (update_first Q f xs) = find P xs"
  by (induction xs) auto

lemma find_filter_keep: "(\<And>x. P x \<Longrightarrow> R x) \<Longrightarrow> find P (filter R xs) = find P xs"
  by (induction xs) auto

text \<open>\<open>setExtension\<close> is an upsert: afterwards the first element of the type has the value.\<close>

lemma findExtension_setExtension:
  "\<exists>e. findExtension (setExtension b t v) t = Some e \<and> body e = Some v"
proof (cases "findExtension (ensureExtensionElements b) t")
  case None
  then show ?thesis
    by (simp add: setExtension_def Let_def findExtension_def find_append_new)
next
  case (Some e)
  then have "find (\<lambda>x. etype x = t)
      (update_first (\<lambda>x. etype x = t) (\<lambda>x. x\<lparr>body := Some v\<rparr>) (getExtensionValues b))
      = Some (e\<lparr>body := Some v\<rparr>)"
    by (intro find_update_first) (auto simp: findExtension_def find_Some_iff)
  then show ?thesis using Some
    by (simp add: setExtension_def Let_def findExtension_def)
qed

lemma findExtension_setExtension_other:
  "t \<noteq> u \<Longrightarrow> findExtension (setExtension b t v) u = findExtension b u"
  by (auto simp: findExtension_def setExtension_def Let_def find_append_other
      split: option.splits intro!: find_update_first_other)

lemma getDestination_set: "getDestination (setExtension b EXT_DESTINATION d) = d"
  using findExtension_setExtension [of b EXT_DESTINATION d]
  by (auto simp: getDestination_def getText_def)

text \<open>The kind is read without regard to case.\<close>

lemma getCurrentType_case_normalized:
  "getCurrentType (mk_bo [mk_ext ''space:Type'' ''BinDing''] p) = BINDING"
  by code_simp

section \<open>Setting the kind of a task\<close>

text \<open>
  A key that is neither one of the three kinds nor the name of an inherited member is
  rejected before anything is written.
\<close>

lemma getTaskConfig_Undefined:
  "getTaskConfig k = Undefined \<longleftrightarrow>
     k \<notin> {MOVEMENT, BINDING, UNBINDING} \<and> k \<notin> set Object_prototype_members"
  by (simp add: getTaskConfig_def)

lemma setTaskType_unknown_key:
  assumes "k \<notin> {MOVEMENT, BINDING, UNBINDING}" and "k \<notin> set Object_prototype_members"
  shows "setTaskType b k =
     \<lparr>thrown = Some (UnknownTaskType k), element = b, hooks = [], changed_fired = 0\<rparr>"
proof -
  have "getTaskConfig k = Undefined" using assms by (simp add: getTaskConfig_Undefined)
  then show ?thesis by (simp add: setTaskType_def)
qed

lemma setTaskType_teleport:
  "setTaskType b ''teleport'' =
     \<lparr>thrown = Some (UnknownTaskType ''teleport''), element = b, hooks = [],
      changed_fired = 0\<rparr>"
  by (rule setTaskType_unknown_key)
    (simp_all add: MOVEMENT_def BINDING_def UNBINDING_def Object_prototype_members_def)

text \<open>
  C4. The claim: for every task and every kind key outside the closed set of movement,
  binding and unbinding, setting the kind throws to the caller and leaves the stored
  metadata of the task, its stored kind included, unchanged. The key \<open>constructor\<close> is
  outside the set, yet the lookup finds the member that the configuration object
  inherits, the guard passes, and the type entry of a Binding task is overwritten with
  \<open>constructor\<close> before the call throws a TypeError.
\<close>

theorem setTaskType_inherited_key_overwrites_kind:
  "setTaskType (mk_bo [mk_ext ''space:Type'' ''binding''] ''Process_1'') ''constructor'' =
     \<lparr>thrown = Some TypeError,
      element = mk_bo [mk_ext ''space:Type'' ''constructor''] ''Process_1'',
      hooks = [], changed_fired = 0\<rparr> \<and>
   getCurrentType (mk_bo [mk_ext ''space:Type'' ''binding''] ''Process_1'') = ''binding'' \<and>
   getCurrentType
     (element (setTaskType (mk_bo [mk_ext ''space:Type'' ''binding''] ''Process_1'')
        ''constructor'')) = ''constructor''"
  by code_simp

text \<open>Setting the kind to Movement gives a task without a destination the placeholder.\<close>

lemma setTaskType_movement_default_destination:
  assumes "getDestination b = []"
  shows "getDestination (element (setTaskType b MOVEMENT)) = ''${destination}''"
proof -
  let ?b1 = "cleanupIncompatibleExtensions (setExtension b EXT_TYPE MOVEMENT) movement_config"
  have "findExtension ?b1 EXT_DESTINATION
          = findExtension (setExtension b EXT_TYPE MOVEMENT) EXT_DESTINATION"
    by (simp add: findExtension_def cleanupIncompatibleExtensions_def Let_def
        movement_config_def EXT_DESTINATION_def find_filter_keep)
  also have "\<dots> = findExtension b EXT_DESTINATION"
    by (rule findExtension_setExtension_other) (simp add: EXT_TYPE_def EXT_DESTINATION_def)
  finally have "getDestination ?b1 = []" using assms by (simp add: getDestination_def)
  then show ?thesis
    by (simp add: setTaskType_def getTaskConfig_def handleTypeTransition_def
        initializeExtensions_def Let_def EXT_BINDING_def getDestination_set
        movement_config_def EXT_DESTINATION_def [symmetric])
qed

text \<open>
  After the kind is set to Binding a task holds extension elements of the three allowed
  types only: there is no binding element, whatever the task held before.
\<close>

lemma setTaskType_binding_allowed_only:
  "v \<in> set (getExtensionValues (element (setTaskType b BINDING))) \<Longrightarrow>
   etype v \<in> {''space:Type'', ''space:TaskAssignment'', ''space:TaskAssignmentReached''}"
  by (auto simp: setTaskType_def getTaskConfig_def MOVEMENT_def BINDING_def
      handleTypeTransition_def initializeExtensions_def EXT_BINDING_def binding_config_def
      EXT_DESTINATION_def cleanupIncompatibleExtensions_def EXT_TYPE_def Let_def)

text \<open>
  C7. The claim: setting the kind initializes the defaults of the kind; after Movement a
  task without a destination has the placeholder destination, and after Binding a task
  without a binding attribute has an empty binding placeholder. The first half holds
  (\<open>setTaskType_movement_default_destination\<close>). The second does not: the branch
  that would add the placeholder tests \<open>EXTENSION_TYPES.BINDING\<close>, which does not exist,
  so a task without any extension element ends with its type entry and nothing else.
\<close>

theorem setTaskType_binding_adds_no_placeholder:
  "setTaskType bare_task BINDING =
     \<lparr>thrown = None, element = mk_bo [mk_ext ''space:Type'' ''binding''] ''Process_1'',
      hooks = [''handleOtherToBindingTransition''], changed_fired = 1\<rparr> \<and>
   getBinding (element (setTaskType bare_task BINDING)) = [] \<and>
   getDestination (element (setTaskType bare_task MOVEMENT)) = ''${destination}''"
  by code_simp

section \<open>Classifying and reconciling a connection\<close>

lemma kinds_differ: "BINDING \<noteq> UNBINDING"
  by (simp add: BINDING_def UNBINDING_def)

lemma determineConnectionType_cases:
  "determineConnectionType c = None \<or> determineConnectionType c = Some BINDING \<or>
   determineConnectionType c = Some UNBINDING"
  by (simp add: determineConnectionType_def Let_def split: option.splits)

lemma determineConnectionType_binding:
  "determineConnectionType c = Some BINDING \<longleftrightarrow>
     (\<exists>src tgt. csource c = Some src \<and> ctarget c = Some tgt \<and>
        stype src = ''bpmn:Task'' \<and> stype tgt = ''bpmn:Task'' \<and>
        getCurrentType (sbo src) = BINDING \<and> getCurrentType (sbo tgt) = BINDING)"
  using kinds_differ
  by (auto simp: determineConnectionType_def Let_def split: option.splits if_splits)

lemma determineConnectionType_unbinding:
  "determineConnectionType c = Some UNBINDING \<longleftrightarrow>
     (\<exists>src tgt. csource c = Some src \<and> ctarget c = Some tgt \<and>
        stype src = ''bpmn:Task'' \<and> stype tgt = ''bpmn:Task'' \<and>
        getCurrentType (sbo src) = UNBINDING \<and> getCurrentType (sbo tgt) = UNBINDING)"
  using kinds_differ
  by (auto simp: determineConnectionType_def Let_def split: option.splits if_splits)

text \<open>Reconciling does not touch the endpoints, so the classification stays what it was.\<close>

lemma endpoints_kept:
  "csource (fst (checkAndAddConnectionData c)) = csource c"
  "ctarget (fst (checkAndAddConnectionData c)) = ctarget c"
  by (auto simp: checkAndAddConnectionData_def addConnectionData_def clearAndUpdate_def Let_def
      split: option.splits container.splits)

lemma classification_kept:
  "determineConnectionType (fst (checkAndAddConnectionData c)) = determineConnectionType c"
  unfolding determineConnectionType_def endpoints_kept by (rule refl)

lemma values_clearConnectionData:
  "filter isConnectionData (getExtensionValues (clearConnectionData b)) = []"
  by (auto simp: clearConnectionData_def getExtensionValues_def setValues_def
      split: option.splits)

lemma stored_type_has_data:
  "getStoredType c = Some k \<Longrightarrow> k = BINDING \<or> k = UNBINDING \<Longrightarrow> hasConnectionData (cbo c)"
  by (auto simp: getStoredType_def storedBody_def hasConnectionData_def or_null_def
      list_ex_iff find_Some_iff split: option.splits if_splits)

lemma no_data_no_has:
  "storedConnectionData c = [] \<Longrightarrow> \<not> hasConnectionData (cbo c)"
  by (auto simp: storedConnectionData_def hasConnectionData_def list_ex_iff
      filter_empty_conv isConnectionData_def split: option.splits)

lemma reconcile_none_clears:
  assumes none: "determineConnectionType c = None"
    and wf: "storedConnectionData c = [] \<or>
       getStoredType c = Some BINDING \<or> getStoredType c = Some UNBINDING"
  shows "storedConnectionData (fst (checkAndAddConnectionData c)) = []"
proof -
  from wf consider (empty) "storedConnectionData c = []"
    | (typed) k where "getStoredType c = Some k" "k = BINDING \<or> k = UNBINDING"
    by blast
  then show ?thesis
  proof cases
    case empty
    then show ?thesis
      using none no_data_no_has [OF empty]
      by (simp add: checkAndAddConnectionData_def)
  next
    case typed
    have has: "hasConnectionData (cbo c)" using typed by (rule stored_type_has_data)
    then obtain b where b: "cbo c = Some b"
      by (auto simp: hasConnectionData_def split: option.splits)
    have "needsUpdate c" using typed(1) none b by (simp add: needsUpdate_def Let_def)
    then show ?thesis
      using none has b
      by (simp add: checkAndAddConnectionData_def clearAndUpdate_def storedConnectionData_def
          values_clearConnectionData)
  qed
qed

text \<open>
  C1, as amended. The derived classification of a connection is Binding exactly when
  both endpoints are tasks whose current kind is Binding, Unbinding exactly when both are
  tasks whose current kind is Unbinding, and none otherwise; reconciling leaves it as it
  is. When the classification is none and the connection either carries no
  classification metadata or carries a stored type of Binding or Unbinding,
  the metadata entries (type and both pool references) are all absent after
  reconciliation. Reconciliation clears only behind the \<open>hasConnectionData\<close> test, so
  entries without such a stored type are left where they are.
\<close>

theorem classification_follows_endpoint_kinds:
  "(determineConnectionType c = Some BINDING \<longleftrightarrow>
      (\<exists>src tgt. csource c = Some src \<and> ctarget c = Some tgt \<and>
         stype src = ''bpmn:Task'' \<and> stype tgt = ''bpmn:Task'' \<and>
         getCurrentType (sbo src) = BINDING \<and> getCurrentType (sbo tgt) = BINDING)) \<and>
   (determineConnectionType c = Some UNBINDING \<longleftrightarrow>
      (\<exists>src tgt. csource c = Some src \<and> ctarget c = Some tgt \<and>
         stype src = ''bpmn:Task'' \<and> stype tgt = ''bpmn:Task'' \<and>
         getCurrentType (sbo src) = UNBINDING \<and> getCurrentType (sbo tgt) = UNBINDING)) \<and>
   (determineConnectionType c = None \<or> determineConnectionType c = Some BINDING \<or>
    determineConnectionType c = Some UNBINDING) \<and>
   determineConnectionType (fst (checkAndAddConnectionData c)) = determineConnectionType c \<and>
   (determineConnectionType c = None \<and>
    (storedConnectionData c = [] \<or> getStoredType c = Some BINDING \<or>
     getStoredType c = Some UNBINDING) \<longrightarrow>
      storedConnectionData (fst (checkAndAddConnectionData c)) = [])"
  using determineConnectionType_binding [of c] determineConnectionType_unbinding [of c]
    determineConnectionType_cases [of c] classification_kept [of c]
    reconcile_none_clears [of c]
  by blast

text \<open>
  The scenario of the specification: \<open>X\<close> and \<open>Y\<close> were Binding tasks and the flow between
  them was classified; \<open>Y\<close> has lost its kind. Reconciling removes the three entries.
\<close>

theorem classification_follows_endpoint_kinds_witness:
  "determineConnectionType (message_flow [mk_ext ''space:Type'' ''binding''] [] binding_data)
     = None \<and>
   getStoredType (message_flow [mk_ext ''space:Type'' ''binding''] [] binding_data)
     = Some BINDING \<and>
   storedConnectionData (fst (checkAndAddConnectionData
     (message_flow [mk_ext ''space:Type'' ''binding''] [] binding_data))) = []"
proof -
  let ?c = "message_flow [mk_ext ''space:Type'' ''binding''] [] binding_data"
  have n: "determineConnectionType ?c = None" by code_simp
  have s: "getStoredType ?c = Some BINDING" by code_simp
  from classification_follows_endpoint_kinds [of ?c] n s
  have "storedConnectionData (fst (checkAndAddConnectionData ?c)) = []" by blast
  with n s show ?thesis by simp
qed

text \<open>
  The claim as it was stated fails on a flow between two tasks without a kind that
  carries the two pool references and no type, as a diagram file may: the classification
  is none, the stored values equal the desired ones, and reconciliation leaves both
  entries in place.
\<close>

theorem stale_pool_references_survive:
  "determineConnectionType
     (message_flow [] []
        [mk_ext ''space:Participant1'' ''Pool_1'', mk_ext ''space:Participant2'' ''Pool_2''])
     = None \<and>
   storedConnectionData (fst (checkAndAddConnectionData
     (message_flow [] []
        [mk_ext ''space:Participant1'' ''Pool_1'', mk_ext ''space:Participant2'' ''Pool_2''])))
     = [mk_ext ''space:Participant1'' ''Pool_1'', mk_ext ''space:Participant2'' ''Pool_2'']"
  by code_simp

text \<open>
  C2. Reconciling a connection whose stored classification and stored pool references
  equal the desired classification and the desired pool references makes no metadata
  write and leaves the connection as it is.
\<close>

theorem reconcile_consistent_is_noop:
  assumes "getStoredType c = determineConnectionType c"
    and "getStoredParticipant1 c = getParticipantId (csource c)"
    and "getStoredParticipant2 c = getParticipantId (ctarget c)"
  shows "checkAndAddConnectionData c = (c, 0)"
  using assms by (simp add: checkAndAddConnectionData_def needsUpdate_def Let_def)

theorem reconcile_consistent_is_noop_witness:
  "getStoredType (message_flow [mk_ext ''space:Type'' ''binding'']
      [mk_ext ''space:Type'' ''binding''] binding_data) = Some BINDING \<and>
   checkAndAddConnectionData (message_flow [mk_ext ''space:Type'' ''binding'']
      [mk_ext ''space:Type'' ''binding''] binding_data)
     = (message_flow [mk_ext ''space:Type'' ''binding'']
          [mk_ext ''space:Type'' ''binding''] binding_data, 0)"
proof -
  let ?c = "message_flow [mk_ext ''space:Type'' ''binding'']
      [mk_ext ''space:Type'' ''binding''] binding_data"
  have t: "getStoredType ?c = determineConnectionType ?c" by code_simp
  have p1: "getStoredParticipant1 ?c = getParticipantId (csource ?c)" by code_simp
  have p2: "getStoredParticipant2 ?c = getParticipantId (ctarget ?c)" by code_simp
  have s: "getStoredType ?c = Some BINDING" by code_simp
  from reconcile_consistent_is_noop [OF t p1 p2] s show ?thesis by simp
qed

text \<open>
  The pool of an element is looked for among the element and its parents, ten elements
  at most.
\<close>

lemma containment_chain_simps [simp]:
  "containment_chain None = []"
  "containment_chain (Some s) = s # containment_chain (sparent s)"
  by (cases s; simp add: containment_chain_def split: option.splits)+

lemma participantWalk_None:
  "participantWalk n el = None \<longleftrightarrow>
     \<not> list_ex (\<lambda>s. stype s = ''bpmn:Participant'') (take n (containment_chain el))"
  by (induction n el rule: participantWalk.induct) auto

lemma getParticipantId_None:
  "getParticipantId el = None \<longleftrightarrow>
     \<not> list_ex (\<lambda>s. stype s = ''bpmn:Participant'') (take 10 (containment_chain el))"
  by (simp add: getParticipantId_def participantWalk_None)

text \<open>
  C5. When the desired classification of a connection is not none and the pool of the
  source task or of the target task cannot be resolved, reconciliation writes nothing:
  the connection, its stored classification metadata included, is exactly what it was,
  and no update reaches the model. \<open>addConnectionData\<close> itself returns before its first
  change.
\<close>

theorem reconcile_unresolved_pool_writes_nothing:
  assumes "determineConnectionType c = Some k"
    and "getParticipantId (csource c) = None \<or> getParticipantId (ctarget c) = None"
  shows "checkAndAddConnectionData c = (c, 0) \<and> addConnectionData c k = (c, 0)"
  using assms
  by (auto simp: checkAndAddConnectionData_def addConnectionData_def falsy_def or_null_def
      Let_def split: option.splits)

text \<open>
  A flow between two Binding tasks that holds stale metadata; its source task lies
  outside every pool.
\<close>

theorem reconcile_unresolved_pool_writes_nothing_witness:
  "determineConnectionType
     ((message_flow [] [mk_ext ''space:Type'' ''binding''] binding_data)
        \<lparr>csource := Some (Shape 3 ''bpmn:Task'' ''Task_X''
            (mk_bo [mk_ext ''space:Type'' ''binding''] ''Process_1'') None)\<rparr>) = Some BINDING \<and>
   getParticipantId (Some (Shape 3 ''bpmn:Task'' ''Task_X''
            (mk_bo [mk_ext ''space:Type'' ''binding''] ''Process_1'') None)) = None \<and>
   checkAndAddConnectionData
     ((message_flow [] [mk_ext ''space:Type'' ''binding''] binding_data)
        \<lparr>csource := Some (Shape 3 ''bpmn:Task'' ''Task_X''
            (mk_bo [mk_ext ''space:Type'' ''binding''] ''Process_1'') None)\<rparr>)
     = ((message_flow [] [mk_ext ''space:Type'' ''binding''] binding_data)
        \<lparr>csource := Some (Shape 3 ''bpmn:Task'' ''Task_X''
            (mk_bo [mk_ext ''space:Type'' ''binding''] ''Process_1'') None)\<rparr>, 0)"
proof -
  let ?x = "Shape 3 ''bpmn:Task'' ''Task_X''
            (mk_bo [mk_ext ''space:Type'' ''binding''] ''Process_1'') None"
  let ?c = "(message_flow [] [mk_ext ''space:Type'' ''binding''] binding_data)
        \<lparr>csource := Some ?x\<rparr>"
  have d: "determineConnectionType ?c = Some BINDING" by code_simp
  have p: "getParticipantId (Some ?x) = None" by code_simp
  have "csource ?c = Some ?x" by simp
  with p have "getParticipantId (csource ?c) = None \<or> getParticipantId (ctarget ?c) = None"
    by simp
  from reconcile_unresolved_pool_writes_nothing [OF d this] d p show ?thesis by simp
qed

text \<open>
  The forced update that a reconnection asks for is another matter: it clears the entries
  in place before it reconciles, so with an unresolved pool it leaves the flow without
  classification metadata, and still without an update of the model.
\<close>

lemma forced_update_unresolved_pool_clears:
  "storedConnectionData
     ((message_flow [] [mk_ext ''space:Type'' ''binding''] binding_data)
        \<lparr>csource := Some (Shape 3 ''bpmn:Task'' ''Task_X''
            (mk_bo [mk_ext ''space:Type'' ''binding''] ''Process_1'') None)\<rparr>) = binding_data \<and>
   storedConnectionData (fst (updateConnectionData
     ((message_flow [] [mk_ext ''space:Type'' ''binding''] binding_data)
        \<lparr>csource := Some (Shape 3 ''bpmn:Task'' ''Task_X''
            (mk_bo [mk_ext ''space:Type'' ''binding''] ''Process_1'') None)\<rparr>))) = [] \<and>
   snd (updateConnectionData
     ((message_flow [] [mk_ext ''space:Type'' ''binding''] binding_data)
        \<lparr>csource := Some (Shape 3 ''bpmn:Task'' ''Task_X''
            (mk_bo [mk_ext ''space:Type'' ''binding''] ''Process_1'') None)\<rparr>)) = 0"
  by code_simp


section \<open>Scheduling reconciliations\<close>

text \<open>
  The handler has a single timer: as long as nothing is in flight, scheduling an update
  replaces the pending timer.
\<close>

lemma scheduleUpdate_replaces_timer:
  assumes "single_timer s" and "cid c \<noteq> []"
  shows "timers (scheduleUpdate s c False)
           = [\<lparr>handle = nextHandle s, due = now s + 50, action = Process c False\<rparr>] \<and>
         single_timer (scheduleUpdate s c False)"
proof -
  have none: "filter (\<lambda>t. handle t \<noteq> h) (timers s) = []" if "updateTimeout s = Some h" for h
    using assms(1) that by (auto simp: single_timer_def list_all_iff filter_empty_conv)
  have empty: "timers s = []" if "updateTimeout s = None \<or> updateTimeout s = Some 0"
    using assms(1) that by (cases "timers s") (auto simp: single_timer_def)
  show ?thesis
  proof (cases "updateTimeout s")
    case None
    then show ?thesis
      using assms empty
      by (simp add: scheduleUpdate_def setTimeout_def single_timer_def Let_def)
  next
    case (Some h)
    then show ?thesis
      using assms empty none [OF Some]
      by (simp add: scheduleUpdate_def setTimeout_def clearTimeout_def single_timer_def
          Let_def)
  qed
qed

lemma scheduleUpdate_all_keeps_last:
  assumes "single_timer s" and "flows \<noteq> []" and "list_all (\<lambda>c. cid c \<noteq> []) flows"
  shows "map action (timers (foldl (\<lambda>s' flow. scheduleUpdate s' flow False) s flows))
           = [Process (last flows) False] \<and>
         single_timer (foldl (\<lambda>s' flow. scheduleUpdate s' flow False) s flows)"
  using assms(2,3)
proof (induction flows rule: rev_induct)
  case Nil
  then show ?case by simp
next
  case (snoc c flows)
  let ?s = "foldl (\<lambda>s' flow. scheduleUpdate s' flow False) s flows"
  have st: "single_timer ?s"
  proof (cases "flows = []")
    case True
    then show ?thesis using assms(1) by simp
  next
    case False
    then show ?thesis using snoc by simp
  qed
  have "cid c \<noteq> []" using snoc.prems by simp
  from scheduleUpdate_replaces_timer [OF st this] show ?case by simp
qed

text \<open>
  Whatever the number of message flows in an imported diagram, after the import a single
  timer is pending, and it is the one of the last message flow.
\<close>

lemma import_done_keeps_last_timer:
  assumes "filter (\<lambda>e. ctype e = ''bpmn:MessageFlow'') elementRegistry \<noteq> []"
    and "list_all (\<lambda>c. cid c \<noteq> []) elementRegistry"
  shows "map action (timers (import_done initial_handler elementRegistry))
           = [Process (last (filter (\<lambda>e. ctype e = ''bpmn:MessageFlow'') elementRegistry))
                False]"
proof -
  have "single_timer initial_handler"
    by (simp add: single_timer_def initial_handler_def)
  moreover have "list_all (\<lambda>c. cid c \<noteq> [])
      (filter (\<lambda>e. ctype e = ''bpmn:MessageFlow'') elementRegistry)"
    using assms(2) by (auto simp: list_all_iff)
  ultimately show ?thesis
    using scheduleUpdate_all_keeps_last [OF _ assms(1)]
    by (simp add: import_done_def Let_def)
qed

text \<open>
  C6. The claim: after the import of a diagram one reconciliation is scheduled and
  performed for every message flow, each debounced on its own, so that every flow and not
  just the last one scheduled is reconciled once the delay has passed. The handler has one
  timer for all flows and \<open>scheduleUpdate\<close> clears it before it sets the next: after the
  import of two message flows one timer is pending, the one of the second flow, and
  only the second flow is ever reconciled.
\<close>

theorem import_done_reconciles_last_flow_only:
  "map (\<lambda>t. case action t of Process c f \<Rightarrow> cid c | Release i \<Rightarrow> i)
     (timers (import_done initial_handler [flow_1, flow_2])) = [''Flow_2''] \<and>
   map (\<lambda>r. cid (fst r))
     (reconciled (run_until 50 (import_done initial_handler [flow_1, flow_2])))
     = [''Flow_2''] \<and>
   map (\<lambda>r. cid (fst r))
     (reconciled (run_until 1000 (import_done initial_handler [flow_1, flow_2])))
     = [''Flow_2''] \<and>
   timers (run_until 1000 (import_done initial_handler [flow_1, flow_2])) = []"
  by code_simp

section \<open>Validating a change of kind\<close>

text \<open>
  No change of kind is ever answered with a warning of the type \<open>orphaned_unbinding\<close>:
  the rule \<open>noDownstreamUnbinding\<close> that would produce it is listed in no configuration.
\<close>

lemma orphaned_unbinding_never_reported:
  assumes "getValidationWarnings reg el newTypeKey currentType translate = Inr ws"
    and "w \<in> set ws"
  shows "wtype w \<noteq> ''orphaned_unbinding''"
  using assms
  by (auto simp: getValidationWarnings_def getTaskConfig_def movement_config_def
      binding_config_def unbinding_config_def applyValidationWarning_def
      getUpstreamBindingWarning_def getBindingChangeWarning_def Let_def
      split: if_splits option.splits)

text \<open>
  C3. The claim: for a task whose current kind is Binding, validating a change to a kind
  other than Binding, when the task has dependent Unbinding tasks, produces a warning of
  the type \<open>orphaned_unbinding\<close> with the severity \<open>warning\<close>, whose message lists up to
  three names and an ellipsis. In the pool with \<open>A \<rightarrow> B \<rightarrow> C\<close> the Binding task \<open>A\<close> has the
  dependent Unbinding task \<open>C\<close>, and validating the change of \<open>A\<close> to Movement produces
  one warning, of the type \<open>binding_change_impact\<close> and the severity \<open>info\<close>;
  \<open>getDownstreamUnbindingWarning\<close>, which would build the warning of the claim for the
  same input, is never called.
\<close>

theorem validateTypeChange_from_binding_reports_info_only:
  "getCurrentType (sbo (shp task_A)) = BINDING \<and>
   findDependentUnbindingTasks chain_registry task_A = [task_C] \<and>
   map_sum id (\<lambda>v. (valid v, vseverity v, map wtype (allWarnings v), map severity (allWarnings v)))
     (validateTypeChange chain_registry task_A MOVEMENT (\<lambda>m. m))
     = Inr (True, Some ''info'', [''binding_change_impact''], [''info'']) \<and>
   map_option wtype
     (getDownstreamUnbindingWarning chain_registry task_A (\<lambda>m. m) BINDING MOVEMENT)
     = Some ''orphaned_unbinding''"
  by code_simp

section \<open>Searching upstream\<close>

lemma resolve_Some:
  "resolve reg a = Some m \<Longrightarrow> m \<in> set reg \<and> a = Some (sref (shp m))"
  by (auto simp: resolve_def find_Some_iff split: option.splits)

lemma neighbours_upstream:
  assumes "s \<in> set (neighbours reg pool Upstream n)"
  shows "s \<in> set reg \<and>
    (\<exists>f \<in> set (incoming n). ftype f = ''bpmn:SequenceFlow'' \<and> fsource f = Some (sref (shp s)))"
proof -
  from assms obtain f where f: "f \<in> set (incoming n)" "ftype f = ''bpmn:SequenceFlow''"
    and r: "resolve reg (fsource f) = Some s"
    by (auto simp: neighbours_def List.map_filter_def flows_of_def far_end_def)
  from r have "s \<in> set reg" "fsource f = Some (sref (shp s))"
    using resolve_Some by blast+
  with f show ?thesis by blast
qed

text \<open>
  \<open>find\<close> returns the one element that satisfies the test, wherever it stands in the
  list; so the registry resolves the address of an element to that element, and the pool
  lookup finds the one participant of the process.
\<close>

lemma find_unique:
  "p \<in> set xs \<Longrightarrow> P p \<Longrightarrow> (\<forall>e \<in> set xs. P e \<longrightarrow> e = p) \<Longrightarrow> find P xs = Some p"
proof (induction xs)
  case Nil
  then show ?case by simp
next
  case (Cons x xs)
  show ?case
  proof (cases "P x")
    case True
    then have "x = p" using Cons.prems(3) by simp
    then show ?thesis using True by simp
  next
    case False
    then have "p \<in> set xs" using Cons.prems(1,2) by auto
    moreover have "\<forall>e \<in> set xs. P e \<longrightarrow> e = p" using Cons.prems(3) by simp
    ultimately have "find P xs = Some p" using Cons.prems(2) by (intro Cons.IH)
    then show ?thesis using False by simp
  qed
qed


lemma resolve_member:
  assumes "distinct (map (\<lambda>n. sref (shp n)) reg)" and "n \<in> set reg"
  shows "resolve reg (Some (sref (shp n))) = Some n"
proof -
  have inj: "inj_on (\<lambda>n. sref (shp n)) (set reg)"
    using assms(1) by (simp add: distinct_map)
  have "\<forall>e \<in> set reg. sref (shp e) = sref (shp n) \<longrightarrow> e = n"
  proof (intro ballI impI)
    fix e assume "e \<in> set reg" "sref (shp e) = sref (shp n)"
    then show "e = n" using inj assms(2) by (meson inj_onD)
  qed
  then have "find (\<lambda>m. sref (shp m) = sref (shp n)) reg = Some n"
    using assms(2) by (intro find_unique) simp_all
  then show ?thesis by (simp add: resolve_def)
qed

text \<open>An element lies in a pool when the pool is the element or one of its parents.\<close>

lemma isDescendantOf_chain:
  "isDescendantOf s ancestor \<longleftrightarrow> sref ancestor \<in> sref ` set (chain_of s)"
proof (induction s ancestor rule: isDescendantOf.induct)
  case (1 r t i b p ancestor)
  show ?case
  proof (cases p)
    case None
    then show ?thesis by auto
  next
    case (Some q)
    then show ?thesis using 1 [OF _ Some] by auto
  qed
qed


text \<open>
  Two registered elements with the same address are the same element.
\<close>

lemma same_address:
  assumes "distinct (map (\<lambda>n. sref (shp n)) reg)" and "e \<in> set reg" and "m \<in> set reg"
    and "sref (shp e) = sref (shp m)"
  shows "e = m"
proof -
  have "inj_on (\<lambda>n. sref (shp n)) (set reg)"
    using assms(1) by (simp add: distinct_map)
  then show ?thesis using assms(2,3,4) by (meson inj_onD)
qed

text \<open>
  The lookup of an address and the walk up the parents decide together whether the
  address lies in the pool.
\<close>

lemma in_pool_resolve_None:
  assumes d: "distinct (map (\<lambda>n. sref (shp n)) reg)" and n: "resolve reg s = None"
  shows "\<not> in_pool reg p s"
proof
  assume "in_pool reg p s"
  then obtain e where e: "e \<in> set reg" "s = Some (sref (shp e))"
    unfolding in_pool_def list_ex_iff by blast
  then have "resolve reg s = Some e"
    using d by (simp add: resolve_member)
  with n show False by simp
qed

lemma in_pool_resolve_Some:
  assumes d: "distinct (map (\<lambda>n. sref (shp n)) reg)" and r: "resolve reg s = Some e"
  shows "in_pool reg p s = isDescendantOf (shp e) (shp p)"
proof -
  from r have e: "e \<in> set reg" "s = Some (sref (shp e))"
    using resolve_Some by blast+
  show ?thesis
  proof
    assume "in_pool reg p s"
    then obtain m where m: "m \<in> set reg" "s = Some (sref (shp m))"
      "sref (shp p) \<in> sref ` set (chain_of (shp m))"
      unfolding in_pool_def list_ex_iff by blast
    from m(2) e(2) have "sref (shp m) = sref (shp e)" by simp
    with d m(1) e(1) have "m = e" by (rule same_address)
    with m(3) show "isDescendantOf (shp e) (shp p)"
      by (simp only: isDescendantOf_chain)
  next
    assume "isDescendantOf (shp e) (shp p)"
    then have "sref (shp p) \<in> sref ` set (chain_of (shp e))"
      by (simp only: isDescendantOf_chain)
    with e show "in_pool reg p s"
      unfolding in_pool_def list_ex_iff by blast
  qed
qed

text \<open>
  The upstream neighbours of an element are the elements named by the sources of its
  incoming sequence flows that lie in the pool, in the order of the flows.
\<close>

lemma neighbours_addresses_list:
  assumes d: "distinct (map (\<lambda>n. sref (shp n)) reg)"
  shows "map (\<lambda>m. Some (sref (shp m)))
           (filter (\<lambda>s. isDescendantOf (shp s) (shp p))
              (List.map_filter (\<lambda>f. resolve reg (fsource f)) xs))
         = filter (in_pool reg p) (map fsource xs)"
proof (induction xs)
  case Nil
  then show ?case by simp
next
  case (Cons f xs)
  show ?case
  proof (cases "resolve reg (fsource f)")
    case None
    with d have "\<not> in_pool reg p (fsource f)"
      by (rule in_pool_resolve_None)
    then show ?thesis using None Cons.IH by simp
  next
    case (Some e)
    with d have a: "in_pool reg p (fsource f) = isDescendantOf (shp e) (shp p)"
      by (rule in_pool_resolve_Some)
    have b: "Some (sref (shp e)) = fsource f"
      using Some resolve_Some by simp
    show ?thesis
    proof (cases "isDescendantOf (shp e) (shp p)")
      case True
      then show ?thesis using Some Cons.IH a b by simp
    next
      case False
      then show ?thesis using Some Cons.IH a by simp
    qed
  qed
qed

lemma neighbours_addresses:
  assumes "distinct (map (\<lambda>n. sref (shp n)) reg)"
  shows "map (\<lambda>m. Some (sref (shp m))) (neighbours reg (shp p) Upstream n)
         = filter (in_pool reg p) (sequence_sources n)"
  unfolding neighbours_def sequence_sources_def flows_of_def far_end_def direction.case
  using assms by (rule neighbours_addresses_list)

lemma map_singleton: "map g xs = [y] \<Longrightarrow> \<exists>x. xs = [x] \<and> g x = y"
  by (cases xs) simp_all

lemma neighbours_single:
  assumes d: "distinct (map (\<lambda>n. sref (shp n)) reg)" and m: "m \<in> set reg"
    and s: "filter (in_pool reg p) (sequence_sources n) = [Some (sref (shp m))]"
  shows "neighbours reg (shp p) Upstream n = [m]"
proof -
  have "map (\<lambda>m. Some (sref (shp m))) (neighbours reg (shp p) Upstream n)
          = [Some (sref (shp m))]"
    using neighbours_addresses [OF d, of p n] s by simp
  then obtain e where e: "neighbours reg (shp p) Upstream n = [e]"
    and a: "Some (sref (shp e)) = Some (sref (shp m))"
    using map_singleton by blast
  have "e \<in> set (neighbours reg (shp p) Upstream n)" using e by simp
  then have "e \<in> set reg" using neighbours_upstream by blast
  with d have "e = m" using m a by (intro same_address) simp_all
  with e show ?thesis by simp
qed

lemma neighbours_none:
  assumes "distinct (map (\<lambda>n. sref (shp n)) reg)"
    and "filter (in_pool reg p) (sequence_sources n) = []"
  shows "neighbours reg (shp p) Upstream n = []"
  using neighbours_addresses [OF assms(1), of p n] assms(2) by simp


text \<open>The loop on a chain of three elements.\<close>

lemma findUpstreamBindingTasks_of_neighbours:
  assumes "getContainingParticipant reg c = Some p"
    and "neighbours reg (shp p) Upstream c = [b]"
    and "neighbours reg (shp p) Upstream b = [a]"
    and "neighbours reg (shp p) Upstream a = []"
    and "distinct [sid (shp a), sid (shp b), sid (shp c)]"
    and "stype (shp a) = ''bpmn:Task'' \<and> getCurrentType (sbo (shp a)) = BINDING"
    and "getCurrentType (sbo (shp b)) \<noteq> BINDING"
  shows "findUpstreamBindingTasks reg c = [a]"
  using assms
  by (simp add: findUpstreamBindingTasks_def Let_def collected_def wanted_kind_def)

lemma getContainingParticipant_unique:
  assumes "p \<in> set reg" and "stype (shp p) = ''bpmn:Participant''"
    and "processRef_id (sbo (shp p)) = Some process_id" and "process_id \<noteq> []"
    and "\<forall>e \<in> set reg. stype (shp e) = ''bpmn:Participant'' \<and>
           processRef_id (sbo (shp e)) = Some process_id \<longrightarrow> e = p"
    and "parent_id (sbo (shp c)) = Some process_id"
  shows "getContainingParticipant reg c = Some p"
proof -
  have "find (\<lambda>e. stype (shp e) = ''bpmn:Participant'' \<and>
                 processRef_id (sbo (shp e)) = Some process_id) reg = Some p"
    using assms(1) _ assms(5)
  proof (rule find_unique)
    show "stype (shp p) = ''bpmn:Participant'' \<and>
          processRef_id (sbo (shp p)) = Some process_id"
      using assms(2,3) by simp
  qed
  then show ?thesis
    using assms(4,6) by (simp add: getContainingParticipant_def)
qed

text \<open>
  C8. Let the registry hold elements with identities of their own, among them the
  participant \<open>p\<close>, the only participant of its process, and the elements \<open>a\<close> and \<open>b\<close>.
  Let \<open>c\<close> belong to the process of \<open>p\<close>. Among the sources of the sequence flows into
  \<open>c\<close>, let \<open>b\<close> be the only one that is registered and lies in \<open>p\<close>; likewise \<open>a\<close> for
  the sequence flows into \<open>b\<close>; and let no such source exist for \<open>a\<close>: the pool contains
  the chain \<open>a \<rightarrow> b \<rightarrow> c\<close>. When the three ids differ, \<open>a\<close> is a Binding task and the
  kind of \<open>b\<close> is not Binding, the upstream search from \<open>c\<close> returns exactly \<open>a\<close>,
  whatever the kind of \<open>c\<close>, wherever the elements stand in the registry, and whatever
  message flows, sequence flows from other pools and flows without a registered source
  lead into the three elements.
\<close>

theorem findUpstreamBindingTasks_chain:
  assumes "distinct (map (\<lambda>n. sref (shp n)) reg)"
    and "p \<in> set reg" and "a \<in> set reg" and "b \<in> set reg"
    and "stype (shp p) = ''bpmn:Participant''"
    and "processRef_id (sbo (shp p)) = Some process_id" and "process_id \<noteq> []"
    and "\<forall>e \<in> set reg. stype (shp e) = ''bpmn:Participant'' \<and>
           processRef_id (sbo (shp e)) = Some process_id \<longrightarrow> e = p"
    and "parent_id (sbo (shp c)) = Some process_id"
    and "filter (in_pool reg p) (sequence_sources c) = [Some (sref (shp b))]"
    and "filter (in_pool reg p) (sequence_sources b) = [Some (sref (shp a))]"
    and "filter (in_pool reg p) (sequence_sources a) = []"
    and "distinct [sid (shp a), sid (shp b), sid (shp c)]"
    and "stype (shp a) = ''bpmn:Task''" and "getCurrentType (sbo (shp a)) = BINDING"
    and "getCurrentType (sbo (shp b)) \<noteq> BINDING"
  shows "findUpstreamBindingTasks reg c = [a]"
proof -
  have pool: "getContainingParticipant reg c = Some p"
    using assms(2,5,6,7,8,9) by (rule getContainingParticipant_unique)
  have nc: "neighbours reg (shp p) Upstream c = [b]"
    using assms(1,4,10) by (rule neighbours_single)
  have nb: "neighbours reg (shp p) Upstream b = [a]"
    using assms(1,3,11) by (rule neighbours_single)
  have na: "neighbours reg (shp p) Upstream a = []"
    using assms(1,12) by (rule neighbours_none)
  have k: "stype (shp a) = ''bpmn:Task'' \<and> getCurrentType (sbo (shp a)) = BINDING"
    using assms(14,15) by simp
  from pool nc nb na assms(13) k assms(16) show ?thesis
    by (rule findUpstreamBindingTasks_of_neighbours)
qed

text \<open>
  The pool of the specification, with \<open>A\<close> Binding, \<open>B\<close> without a kind and \<open>C\<close> Unbinding;
  the same pool in a registry in another order that holds a second pool before it; and
  the same pool with the Binding tasks \<open>D\<close> and \<open>E\<close> behind flows that are not followed.
\<close>

theorem findUpstreamBindingTasks_chain_witness:
  "getCurrentType (sbo (shp task_A)) = BINDING \<and>
   getCurrentType (sbo (shp task_B)) = [] \<and>
   getCurrentType (sbo (shp task_C)) = UNBINDING \<and>
   findUpstreamBindingTasks chain_registry task_C = [task_A] \<and>
   findUpstreamBindingTasks two_pool_registry task_C = [task_A] \<and>
   getCurrentType (sbo (shp task_D)) = BINDING \<and>
   getCurrentType (sbo (shp task_E)) = BINDING \<and>
   findUpstreamBindingTasks crossing_registry task_C_fed = [task_A]"
proof -
  have d: "distinct (map (\<lambda>n. sref (shp n)) chain_registry)" by code_simp
  have d2: "distinct (map (\<lambda>n. sref (shp n)) two_pool_registry)" by code_simp
  have d3: "distinct (map (\<lambda>n. sref (shp n)) crossing_registry)" by code_simp
  have m: "pool_P \<in> set chain_registry" "task_A \<in> set chain_registry"
    "task_B \<in> set chain_registry" by code_simp+
  have m2: "pool_P \<in> set two_pool_registry" "task_A \<in> set two_pool_registry"
    "task_B \<in> set two_pool_registry" by code_simp+
  have m3: "pool_P \<in> set crossing_registry" "task_A \<in> set crossing_registry"
    "task_B_fed \<in> set crossing_registry" by code_simp+
  have p: "stype (shp pool_P) = ''bpmn:Participant''"
    "processRef_id (sbo (shp pool_P)) = Some ''Process_1''" "''Process_1'' \<noteq> []"
    by code_simp+
  have u: "\<forall>e \<in> set chain_registry. stype (shp e) = ''bpmn:Participant'' \<and>
           processRef_id (sbo (shp e)) = Some ''Process_1'' \<longrightarrow> e = pool_P"
    by code_simp
  have u2: "\<forall>e \<in> set two_pool_registry. stype (shp e) = ''bpmn:Participant'' \<and>
           processRef_id (sbo (shp e)) = Some ''Process_1'' \<longrightarrow> e = pool_P"
    by code_simp
  have u3: "\<forall>e \<in> set crossing_registry. stype (shp e) = ''bpmn:Participant'' \<and>
           processRef_id (sbo (shp e)) = Some ''Process_1'' \<longrightarrow> e = pool_P"
    by code_simp
  have o: "parent_id (sbo (shp task_C)) = Some ''Process_1''" by code_simp
  have o3: "parent_id (sbo (shp task_C_fed)) = Some ''Process_1''" by code_simp
  have f: "filter (in_pool chain_registry pool_P) (sequence_sources task_C)
             = [Some (sref (shp task_B))]"
    "filter (in_pool chain_registry pool_P) (sequence_sources task_B)
             = [Some (sref (shp task_A))]"
    "filter (in_pool chain_registry pool_P) (sequence_sources task_A) = []"
    by code_simp+
  have f2: "filter (in_pool two_pool_registry pool_P) (sequence_sources task_C)
             = [Some (sref (shp task_B))]"
    "filter (in_pool two_pool_registry pool_P) (sequence_sources task_B)
             = [Some (sref (shp task_A))]"
    "filter (in_pool two_pool_registry pool_P) (sequence_sources task_A) = []"
    by code_simp+
  have f3: "filter (in_pool crossing_registry pool_P) (sequence_sources task_C_fed)
             = [Some (sref (shp task_B_fed))]"
    "filter (in_pool crossing_registry pool_P) (sequence_sources task_B_fed)
             = [Some (sref (shp task_A))]"
    "filter (in_pool crossing_registry pool_P) (sequence_sources task_A) = []"
    by code_simp+
  have s: "distinct [sid (shp task_A), sid (shp task_B), sid (shp task_C)]" by code_simp
  have s3: "distinct [sid (shp task_A), sid (shp task_B_fed), sid (shp task_C_fed)]"
    by code_simp
  have k: "stype (shp task_A) = ''bpmn:Task''" "getCurrentType (sbo (shp task_A)) = BINDING"
    "getCurrentType (sbo (shp task_B)) \<noteq> BINDING" by code_simp+
  have k3: "stype (shp task_A) = ''bpmn:Task''" "getCurrentType (sbo (shp task_A)) = BINDING"
    "getCurrentType (sbo (shp task_B_fed)) \<noteq> BINDING" by code_simp+
  have kb: "getCurrentType (sbo (shp task_B)) = []" by code_simp
  have kc: "getCurrentType (sbo (shp task_C)) = UNBINDING" by code_simp
  have kd: "getCurrentType (sbo (shp task_D)) = BINDING" by code_simp
  have ke: "getCurrentType (sbo (shp task_E)) = BINDING" by code_simp
  have 1: "findUpstreamBindingTasks chain_registry task_C = [task_A]"
    by (rule findUpstreamBindingTasks_chain [OF d m p u o f s k])
  have 2: "findUpstreamBindingTasks two_pool_registry task_C = [task_A]"
    by (rule findUpstreamBindingTasks_chain [OF d2 m2 p u2 o f2 s k])
  have 3: "findUpstreamBindingTasks crossing_registry task_C_fed = [task_A]"
    by (rule findUpstreamBindingTasks_chain [OF d3 m3 p u3 o3 f3 s3 k3])
  from k(2) kb kc kd ke 1 2 3 show ?thesis by simp
qed

text \<open>
  Every element that the upstream search collects or still has on its stack is the start
  element or lies upstream of it.
\<close>

lemma traverse_reaches:
  assumes "d = Upstream"
    and "\<forall>m \<in> set stack. m \<in> set (t # reg) \<and>
           (sref (shp m) = sref (shp t) \<or> reaches (t # reg) (sref (shp t)) (sref (shp m)))"
    and "\<forall>m \<in> set acc. reaches (t # reg) (sref (shp t)) (sref (shp m))"
  shows "\<forall>m \<in> set (traverse reg pool d stack visited acc).
           reaches (t # reg) (sref (shp t)) (sref (shp m))"
  using assms
proof (induction reg pool d stack visited acc rule: traverse.induct)
  case (1 reg pool d visited acc)
  then show ?case by simp
next
  case (2 reg pool d n stack visited acc)
  show ?case
  proof (cases "sid (shp n) \<in> set visited")
    case True
    then show ?thesis using 2 by simp
  next
    case False
    define ns where "ns = neighbours reg pool d n"
    have n_in: "n \<in> set (t # reg)"
      and n_r: "sref (shp n) = sref (shp t) \<or> reaches (t # reg) (sref (shp t)) (sref (shp n))"
      using "2.prems"(2) by auto
    have new: "s \<in> set reg \<and> reaches (t # reg) (sref (shp t)) (sref (shp s))"
      if "s \<in> set ns" for s
    proof -
      from that "2.prems"(1) obtain f where "s \<in> set reg" "f \<in> set (incoming n)"
        "ftype f = ''bpmn:SequenceFlow''" "fsource f = Some (sref (shp s))"
        unfolding ns_def using neighbours_upstream by blast
      then have st: "reaches (t # reg) (sref (shp n)) (sref (shp s))"
        using n_in by (intro reaches.step)
      from n_r have "reaches (t # reg) (sref (shp t)) (sref (shp s))"
      proof
        assume "sref (shp n) = sref (shp t)"
        with st show ?thesis by simp
      next
        assume "reaches (t # reg) (sref (shp t)) (sref (shp n))"
        then show ?thesis using st by (rule reaches.trans)
      qed
      with \<open>s \<in> set reg\<close> show ?thesis by simp
    qed
    have "\<forall>m \<in> set (traverse reg pool d (rev ns @ stack) (sid (shp n) # visited)
              (acc @ filter (collected d) ns)).
            reaches (t # reg) (sref (shp t)) (sref (shp m))"
    proof (rule "2.IH"(2) [OF False ns_def "2.prems"(1)])
      show "\<forall>m\<in>set (rev ns @ stack). m \<in> set (t # reg) \<and>
         (sref (shp m) = sref (shp t) \<or> reaches (t # reg) (sref (shp t)) (sref (shp m)))"
        using new "2.prems"(2) by auto
      show "\<forall>m\<in>set (acc @ filter (collected d) ns).
         reaches (t # reg) (sref (shp t)) (sref (shp m))"
        using new "2.prems"(3) by auto
    qed
    then show ?thesis using False by (simp add: ns_def Let_def)
  qed
qed

lemma reaches_is_source:
  "reaches ns x y \<Longrightarrow> \<exists>n \<in> set ns. \<exists>f \<in> set (incoming n). fsource f = Some y"
  by (induction rule: reaches.induct) auto

text \<open>
  C10, as amended. When the element \<open>t\<close> is not contained in any pool, the upstream search
  from \<open>t\<close> returns nothing. When \<open>t\<close> does not lie on a cycle of sequence flows (no chain
  of sequence flows leads from \<open>t\<close> back to \<open>t\<close>), the result does not contain \<open>t\<close>, whatever
  the kind of \<open>t\<close>: the search looks at the sources of the flows it follows and never at
  the element it starts from.
\<close>

theorem findUpstreamBindingTasks_excludes_start:
  "(getContainingParticipant reg t = None \<longrightarrow> findUpstreamBindingTasks reg t = []) \<and>
   (\<not> reaches (t # reg) (sref (shp t)) (sref (shp t)) \<longrightarrow>
      (\<forall>m \<in> set (findUpstreamBindingTasks reg t). sref (shp m) \<noteq> sref (shp t)))"
proof (intro conjI impI)
  assume "getContainingParticipant reg t = None"
  then show "findUpstreamBindingTasks reg t = []"
    by (simp add: findUpstreamBindingTasks_def)
next
  assume nr: "\<not> reaches (t # reg) (sref (shp t)) (sref (shp t))"
  have "\<forall>m \<in> set (traverse reg pool Upstream [t] [] []).
          reaches (t # reg) (sref (shp t)) (sref (shp m))" for pool
    by (rule traverse_reaches) simp_all
  then have "\<forall>m \<in> set (findUpstreamBindingTasks reg t).
          reaches (t # reg) (sref (shp t)) (sref (shp m))"
    by (cases "getContainingParticipant reg t")
      (simp_all add: findUpstreamBindingTasks_def del: traverse.simps)
  with nr show "\<forall>m \<in> set (findUpstreamBindingTasks reg t). sref (shp m) \<noteq> sref (shp t)"
    by auto
qed

text \<open>
  The Unbinding task \<open>C\<close> of the chain: no sequence flow starts at \<open>C\<close>, so it lies on no
  cycle; and the same task with an empty registry, where it has no pool.
\<close>

theorem findUpstreamBindingTasks_excludes_start_witness:
  "getContainingParticipant [] task_C = None \<and>
   findUpstreamBindingTasks [] task_C = [] \<and>
   sref (shp task_C) \<notin> (\<lambda>m. sref (shp m)) ` set (findUpstreamBindingTasks chain_registry task_C)"
proof -
  have n: "getContainingParticipant [] task_C = None" by code_simp
  have "\<not> reaches (task_C # chain_registry) (sref (shp task_C)) (sref (shp task_C))"
  proof
    assume "reaches (task_C # chain_registry) (sref (shp task_C)) (sref (shp task_C))"
    then have "\<exists>n \<in> set (task_C # chain_registry). \<exists>f \<in> set (incoming n).
        fsource f = Some (sref (shp task_C))"
      by (rule reaches_is_source)
    then show False
      by (simp add: chain_registry_def task_C_def task_B_def task_A_def pool_P_def seq_def
          mk_task_def)
  qed
  then have "\<forall>m \<in> set (findUpstreamBindingTasks chain_registry task_C).
      sref (shp m) \<noteq> sref (shp task_C)"
    using findUpstreamBindingTasks_excludes_start [of chain_registry task_C] by simp
  then have c: "sref (shp task_C)
      \<notin> (\<lambda>m. sref (shp m)) ` set (findUpstreamBindingTasks chain_registry task_C)"
    by auto
  from n findUpstreamBindingTasks_excludes_start [of "[]" task_C]
  have "findUpstreamBindingTasks [] task_C = []" by simp
  with n c show ?thesis by simp
qed

text \<open>
  The claim as it was stated fails on a loop: the Binding task \<open>T\<close> is followed by \<open>U\<close>, and
  a sequence flow leads from \<open>U\<close> back to \<open>T\<close>. The search from \<open>T\<close> reaches \<open>T\<close> again as the
  source of that flow and returns it.
\<close>

theorem findUpstreamBindingTasks_loop_contains_start:
  "findUpstreamBindingTasks loop_registry task_T = [task_T]"
  by code_simp

section \<open>Assignments\<close>

text \<open>An extension element is a condition or a value or neither, never both.\<close>

lemma kinds_of_entry: "\<not> (isCondition e \<and> isReached e)"
  by (simp add: isCondition_def isReached_def EXT_TASK_ASSIGNMENT_def
      EXT_TASK_ASSIGNMENT_REACHED_def)

text \<open>The slots of an array are distinct objects; their contents are the array.\<close>

lemma slots_snd [simp]: "map snd (slots vs) = vs"
  by (simp add: slots_def enumerate_eq_zip)

lemma slots_distinct [simp]: "distinct (slots vs)"
  by (simp add: slots_def distinct_enumerate)

lemma filter_slots: "map snd (filter (\<lambda>x. P (snd x)) (slots vs)) = filter P vs"
proof -
  have "filter P (map snd (slots vs)) = map snd (filter (\<lambda>x. P (snd x)) (slots vs))"
    by (simp only: filter_map comp_def)
  then show ?thesis by (simp only: slots_snd)
qed

lemma length_filter_slots:
  "length (filter (\<lambda>x. P (snd x)) (slots vs)) = length (filter P vs)"
  using filter_slots [of P vs] by (metis length_map)

text \<open>Taking one element out of a list without repetitions.\<close>

lemma filter_neq_nth:
  "distinct xs \<Longrightarrow> i < length xs \<Longrightarrow>
   filter (\<lambda>x. x \<noteq> xs ! i) xs = take i xs @ drop (Suc i) xs"
proof (induction xs arbitrary: i)
  case Nil
  then show ?case by simp
next
  case (Cons a xs)
  show ?case
  proof (cases i)
    case 0
    have "filter (\<lambda>x. x \<noteq> a) xs = xs" using Cons.prems(1) by (auto intro: filter_True)
    then show ?thesis using 0 by simp
  next
    case (Suc j)
    then have j: "j < length xs" using Cons.prems(2) by simp
    then have "xs ! j \<in> set xs" by simp
    then have "a \<noteq> xs ! j" using Cons.prems(1) by auto
    then show ?thesis using Suc j Cons.IH [of j] Cons.prems(1) by simp
  qed
qed

text \<open>
  Removing from a list without repetitions the \<open>i\<close>-th element that satisfies \<open>P\<close> and the
  \<open>i\<close>-th that satisfies \<open>Q\<close> takes the \<open>i\<close>-th element out of those that satisfy \<open>P\<close>.
\<close>

lemma remove_filter:
  assumes d: "distinct S"
    and PQ: "\<And>x. \<not> (P x \<and> Q x)"
    and i: "i < length (filter P S)" "i < length (filter Q S)"
  shows "filter P (filter (\<lambda>x. \<not> (x \<in> set ([filter P S ! i] @ [filter Q S ! i]))) S)
         = take i (filter P S) @ drop (Suc i) (filter P S)"
proof -
  let ?c = "filter P S ! i" and ?r = "filter Q S ! i"
  have r: "Q ?r" using i(2) nth_mem [of i "filter Q S"] by auto
  have "filter P (filter (\<lambda>x. \<not> (x \<in> set ([?c] @ [?r]))) S)
        = filter (\<lambda>x. x \<noteq> ?c \<and> x \<noteq> ?r) (filter P S)"
    by (simp add: conj_commute)
  also have "\<dots> = filter (\<lambda>x. x \<noteq> ?c) (filter P S)"
    using r PQ by (intro filter_cong) auto
  also have "\<dots> = take i (filter P S) @ drop (Suc i) (filter P S)"
    using d i(1) by (intro filter_neq_nth) auto
  finally show ?thesis .
qed

text \<open>
  \<open>removeAssignment\<close> within range takes the \<open>i\<close>-th condition out of the conditions and
  the \<open>i\<close>-th value out of the values; out of range it leaves the elements as they are.
\<close>

lemma remove_lists:
  assumes i: "i < conditionCount b" "i < reachedCount b"
  shows "filter isCondition (getExtensionValues (removeAssignment b i))
           = take i (filter isCondition (getExtensionValues b)) @
             drop (Suc i) (filter isCondition (getExtensionValues b))"
    and "filter isReached (getExtensionValues (removeAssignment b i))
           = take i (filter isReached (getExtensionValues b)) @
             drop (Suc i) (filter isReached (getExtensionValues b))"
proof -
  let ?S = "slots (getExtensionValues b)"
  let ?C = "filter (\<lambda>x. isCondition (snd x)) ?S" and ?R = "filter (\<lambda>x. isReached (snd x)) ?S"
  have ic: "i < length ?C" and ir: "i < length ?R"
    using i by (simp_all add: conditionCount_def reachedCount_def length_filter_slots)
  have ne: "extensionElements b \<noteq> None"
    using i(1) by (auto simp: conditionCount_def getExtensionValues_def split: option.splits)
  let ?N = "filter (\<lambda>x. \<not> (x \<in> set ([?C ! i] @ [?R ! i]))) ?S"
  have v: "getExtensionValues (removeAssignment b i) = map snd ?N"
    using ne ic ir by (auto simp: removeAssignment_def nth_opt_def Let_def)
  have c: "filter (\<lambda>x. isCondition (snd x)) ?N = take i ?C @ drop (Suc i) ?C"
    using ic ir kinds_of_entry by (intro remove_filter) auto
  have "filter isCondition (map snd ?N) = map snd (filter (\<lambda>x. isCondition (snd x)) ?N)"
    by (simp add: filter_map comp_def)
  also have "\<dots> = map snd (take i ?C @ drop (Suc i) ?C)"
    by (simp only: c)
  also have "\<dots> = take i (map snd ?C) @ drop (Suc i) (map snd ?C)"
    by (simp only: map_append take_map drop_map)
  finally show "filter isCondition (getExtensionValues (removeAssignment b i))
           = take i (filter isCondition (getExtensionValues b)) @
             drop (Suc i) (filter isCondition (getExtensionValues b))"
    by (simp only: v filter_slots)
  have set_swap: "set ([?C ! i] @ [?R ! i]) = set ([?R ! i] @ [?C ! i])" by auto
  have r: "filter (\<lambda>x. isReached (snd x)) ?N = take i ?R @ drop (Suc i) ?R"
    unfolding set_swap using ic ir kinds_of_entry by (intro remove_filter) auto
  have "filter isReached (map snd ?N) = map snd (filter (\<lambda>x. isReached (snd x)) ?N)"
    by (simp add: filter_map comp_def)
  also have "\<dots> = map snd (take i ?R @ drop (Suc i) ?R)"
    by (simp only: r)
  also have "\<dots> = take i (map snd ?R) @ drop (Suc i) (map snd ?R)"
    by (simp only: map_append take_map drop_map)
  finally show "filter isReached (getExtensionValues (removeAssignment b i))
           = take i (filter isReached (getExtensionValues b)) @
             drop (Suc i) (filter isReached (getExtensionValues b))"
    by (simp only: v filter_slots)
qed

lemma remove_out_of_range:
  assumes "conditionCount b \<le> i" "reachedCount b \<le> i"
  shows "getExtensionValues (removeAssignment b i) = getExtensionValues b"
  using assms
  by (simp add: removeAssignment_def nth_opt_def Let_def conditionCount_def reachedCount_def
      length_filter_slots)


text \<open>How each mutation changes the two lengths.\<close>

lemma length_filter_update_first:
  "(\<And>x. P (f x) = P x) \<Longrightarrow>
   length (filter P (update_first Q f xs)) = length (filter P xs)"
  by (induction xs) auto

lemma count_setExtension:
  assumes "\<And>e. etype e = t \<Longrightarrow> \<not> P e" and "\<And>e v. P (e\<lparr>body := v\<rparr>) = P e"
  shows "length (filter P (getExtensionValues (setExtension b t v)))
         = length (filter P (getExtensionValues b))"
  using assms
  by (auto simp: setExtension_def Let_def length_filter_update_first split: option.splits)

lemma isCondition_body [simp]: "isCondition (e\<lparr>body := v\<rparr>) = isCondition e"
  by (simp add: isCondition_def)

lemma isReached_body [simp]: "isReached (e\<lparr>body := v\<rparr>) = isReached e"
  by (simp add: isReached_def)

lemma count_setExtension_other:
  assumes "t \<noteq> EXT_TASK_ASSIGNMENT" "t \<noteq> EXT_TASK_ASSIGNMENT_REACHED"
  shows "conditionCount (setExtension b t v) = conditionCount b"
    and "reachedCount (setExtension b t v) = reachedCount b"
  using assms
  by (auto simp: conditionCount_def reachedCount_def isCondition_def isReached_def
      intro!: count_setExtension)

lemma count_add:
  "conditionCount (addAssignment b c v) = Suc (conditionCount b)"
  "reachedCount (addAssignment b c v) = Suc (reachedCount b)"
  by (simp_all add: addAssignment_def conditionCount_def reachedCount_def Let_def
      isCondition_def isReached_def EXT_TASK_ASSIGNMENT_def EXT_TASK_ASSIGNMENT_REACHED_def)

lemma count_update:
  "conditionCount (updateAssignment b i c v) = conditionCount b"
  "reachedCount (updateAssignment b i c v) = reachedCount b"
proof -
  let ?S = "slots (getExtensionValues b)"
  have *: "length (filter (P \<circ> (\<lambda>x. if x \<in> A then (snd x)\<lparr>body := Some c\<rparr>
                          else if x \<in> B then (snd x)\<lparr>body := Some v\<rparr>
                          else snd x)) ?S) = length (filter P (getExtensionValues b))"
    if "\<And>e w. P (e\<lparr>body := w\<rparr>) = P e" for P A B
  proof -
    let ?f = "\<lambda>x. if x \<in> A then (snd x)\<lparr>body := Some c\<rparr>
                          else if x \<in> B then (snd x)\<lparr>body := Some v\<rparr>
                          else snd x"
    have "length (filter (P \<circ> ?f) ?S) = length (filter (\<lambda>x. P (snd x)) ?S)"
      by (intro arg_cong [where f = length] filter_cong) (auto simp: that)
    then show ?thesis by (simp only: length_filter_slots)
  qed
  show "conditionCount (updateAssignment b i c v) = conditionCount b"
    by (simp add: updateAssignment_def Let_def conditionCount_def *)
  show "reachedCount (updateAssignment b i c v) = reachedCount b"
    by (simp add: updateAssignment_def Let_def reachedCount_def *)
qed

lemma count_remove:
  assumes "conditionCount b = reachedCount b"
  shows "conditionCount (removeAssignment b i) = reachedCount (removeAssignment b i)"
proof (cases "i < conditionCount b")
  case True
  then have "i < reachedCount b" using assms by simp
  from remove_lists [OF True this] assms show ?thesis
    by (simp add: conditionCount_def reachedCount_def)
next
  case False
  then show ?thesis
    using assms remove_out_of_range [of b i]
    by (simp add: conditionCount_def reachedCount_def)
qed

lemma count_clear:
  "conditionCount (clearAssignments b) = 0" "reachedCount (clearAssignments b) = 0"
  by (auto simp: clearAssignments_def conditionCount_def reachedCount_def filter_empty_conv)

lemma count_clearTaskType:
  "conditionCount (element (clearTaskType b)) = 0"
  "reachedCount (element (clearTaskType b)) = 0"
  by (auto simp: clearTaskType_def clearCustomExtensions_def conditionCount_def
      reachedCount_def isCondition_def isReached_def EXTENSION_TYPES_values_def
      filter_empty_conv)

lemma ext_names:
  "EXT_TYPE \<noteq> EXT_TASK_ASSIGNMENT" "EXT_TYPE \<noteq> EXT_TASK_ASSIGNMENT_REACHED"
  "EXT_DESTINATION \<noteq> EXT_TASK_ASSIGNMENT" "EXT_DESTINATION \<noteq> EXT_TASK_ASSIGNMENT_REACHED"
  by (simp_all add: EXT_TYPE_def EXT_DESTINATION_def EXT_TASK_ASSIGNMENT_def
      EXT_TASK_ASSIGNMENT_REACHED_def)

lemma own_configs:
  "getTaskConfig k = Own config \<Longrightarrow>
   EXT_TASK_ASSIGNMENT \<in> set (cfg_extensionElements config) \<and>
   EXT_TASK_ASSIGNMENT_REACHED \<in> set (cfg_extensionElements config)"
  by (auto simp: getTaskConfig_def movement_config_def binding_config_def
      unbinding_config_def EXT_TASK_ASSIGNMENT_def EXT_TASK_ASSIGNMENT_REACHED_def
      split: if_splits)

lemma count_cleanup:
  assumes "EXT_TASK_ASSIGNMENT \<in> set (cfg_extensionElements config)"
    "EXT_TASK_ASSIGNMENT_REACHED \<in> set (cfg_extensionElements config)"
  shows "conditionCount (cleanupIncompatibleExtensions b config) = conditionCount b"
    and "reachedCount (cleanupIncompatibleExtensions b config) = reachedCount b"
  using assms
  by (auto simp: cleanupIncompatibleExtensions_def conditionCount_def reachedCount_def
      isCondition_def isReached_def Let_def intro!: arg_cong [where f = length] filter_cong)

lemma count_initialize:
  "conditionCount (initializeExtensions b config) = conditionCount b"
  "reachedCount (initializeExtensions b config) = reachedCount b"
  by (auto simp: initializeExtensions_def EXT_BINDING_def Let_def count_setExtension_other
      ext_names split: option.splits)

lemma count_setTaskType:
  "conditionCount (element (setTaskType b k)) = conditionCount b"
  "reachedCount (element (setTaskType b k)) = reachedCount b"
  by (auto simp: setTaskType_def handleTypeTransition_def count_initialize count_cleanup
      count_setExtension_other ext_names dest!: own_configs split: config_lookup.splits)

lemma mutate_keeps_lists_paired:
  "conditionCount b = reachedCount b \<Longrightarrow>
   conditionCount (mutate b m) = reachedCount (mutate b m)"
  by (cases m) (simp_all add: count_add count_update count_remove count_clear
      count_clearTaskType count_setTaskType)

lemma run_keeps_lists_paired:
  "conditionCount b = reachedCount b \<Longrightarrow>
   conditionCount (foldl mutate b ms) = reachedCount (foldl mutate b ms)"
  by (induction ms arbitrary: b) (simp_all add: mutate_keeps_lists_paired)

text \<open>
  With lists of the same length, the assignments are the conditions zipped with the
  values.
\<close>

lemma pairs_zip:
  assumes "conditionCount b = reachedCount b"
  shows "map (\<lambda>a. (condition a, avalue a)) (getAssignments b)
         = zip (map (\<lambda>e. getText (Some e)) (filter isCondition (getExtensionValues b)))
               (map (\<lambda>e. getText (Some e)) (filter isReached (getExtensionValues b)))"
  using assms
  by (intro nth_equalityI)
    (simp_all add: getAssignments_def Let_def conditionCount_def reachedCount_def)

lemma zip_remove_nth:
  assumes "length xs = length ys"
  shows "zip (take i xs @ drop (Suc i) xs) (take i ys @ drop (Suc i) ys)
         = take i (zip xs ys) @ drop (Suc i) (zip xs ys)"
  using assms by (simp add: take_zip drop_zip)

lemma remove_shifts:
  assumes eq: "conditionCount b = reachedCount b" and i: "i < conditionCount b"
  shows "map (\<lambda>a. (condition a, avalue a)) (getAssignments (removeAssignment b i))
         = take i (map (\<lambda>a. (condition a, avalue a)) (getAssignments b)) @
           drop (Suc i) (map (\<lambda>a. (condition a, avalue a)) (getAssignments b))"
proof -
  have i': "i < reachedCount b" using eq i by simp
  have eq': "conditionCount (removeAssignment b i) = reachedCount (removeAssignment b i)"
    using eq by (rule count_remove)
  have len: "length (map (\<lambda>e. getText (Some e)) (filter isCondition (getExtensionValues b)))
     = length (map (\<lambda>e. getText (Some e)) (filter isReached (getExtensionValues b)))"
    using eq by (simp add: conditionCount_def reachedCount_def)
  show ?thesis
    unfolding pairs_zip [OF eq'] pairs_zip [OF eq] remove_lists [OF i i']
    using zip_remove_nth [OF len, of i]
    by (simp only: map_append take_map drop_map)
qed

text \<open>\<open>addAssignment\<close> appends one condition and one value.\<close>

lemma conds_add:
  "filter isCondition (getExtensionValues (addAssignment b c v))
     = filter isCondition (getExtensionValues b) @
       [\<lparr>etype = EXT_TASK_ASSIGNMENT, body = Some c, legacy_value = None\<rparr>]"
  "filter isReached (getExtensionValues (addAssignment b c v))
     = filter isReached (getExtensionValues b) @
       [\<lparr>etype = EXT_TASK_ASSIGNMENT_REACHED, body = Some v, legacy_value = None\<rparr>]"
  by (simp_all add: addAssignment_def Let_def isCondition_def isReached_def
      EXT_TASK_ASSIGNMENT_def EXT_TASK_ASSIGNMENT_REACHED_def)

lemma add_add_remove_first:
  assumes "conditionCount b = 0" "reachedCount b = 0"
  shows "getAssignments (removeAssignment (addAssignment (addAssignment b c1 v1) c2 v2) 0)
         = [\<lparr>aindex = 0, condition = c2, avalue = v2\<rparr>]"
proof -
  let ?b2 = "addAssignment (addAssignment b c1 v1) c2 v2"
  have c: "conditionCount ?b2 = 2" and r: "reachedCount ?b2 = 2"
    using assms by (simp_all add: count_add)
  have cs: "filter isCondition (getExtensionValues ?b2) =
     [\<lparr>etype = EXT_TASK_ASSIGNMENT, body = Some c1, legacy_value = None\<rparr>,
      \<lparr>etype = EXT_TASK_ASSIGNMENT, body = Some c2, legacy_value = None\<rparr>]"
    using assms(1) by (simp add: conds_add conditionCount_def)
  have rs: "filter isReached (getExtensionValues ?b2) =
     [\<lparr>etype = EXT_TASK_ASSIGNMENT_REACHED, body = Some v1, legacy_value = None\<rparr>,
      \<lparr>etype = EXT_TASK_ASSIGNMENT_REACHED, body = Some v2, legacy_value = None\<rparr>]"
    using assms(2) by (simp add: conds_add reachedCount_def)
  have "0 < conditionCount ?b2" "0 < reachedCount ?b2" using c r by simp_all
  from remove_lists [OF this] show ?thesis
    by (simp add: getAssignments_def Let_def cs rs getText_def)
qed

text \<open>
  C9. When the list of conditions and the list of values of a task have the same length,
  they have the same length after every run of mutations that the services offer (adding,
  updating, removing and clearing assignments, setting and clearing the kind); in
  particular they do from a task without assignments on. Removing the assignment at
  index \<open>i\<close> leaves the pairs before \<open>i\<close> in place and moves every later pair down by one
  index. So after adding a first and a second assignment to a task without assignments
  and removing index 0, index 0 holds the second one.
\<close>

theorem assignment_lists_stay_paired:
  assumes "conditionCount b = reachedCount b"
  shows "conditionCount (foldl mutate b ms) = reachedCount (foldl mutate b ms) \<and>
     (i < conditionCount b \<longrightarrow>
        map (\<lambda>a. (condition a, avalue a)) (getAssignments (removeAssignment b i))
         = take i (map (\<lambda>a. (condition a, avalue a)) (getAssignments b)) @
           drop (Suc i) (map (\<lambda>a. (condition a, avalue a)) (getAssignments b))) \<and>
     (conditionCount b = 0 \<longrightarrow>
        getAssignments (removeAssignment (addAssignment (addAssignment b c1 v1) c2 v2) 0)
         = [\<lparr>aindex = 0, condition = c2, avalue = v2\<rparr>])"
  using assms run_keeps_lists_paired [OF assms] remove_shifts [OF assms] add_add_remove_first [of b]
  by simp

text \<open>
  A task without extension elements; the run adds the two assignments of the scenario,
  sets the kind and removes index 0.
\<close>

theorem assignment_lists_stay_paired_witness:
  "conditionCount bare_task = reachedCount bare_task \<and>
   conditionCount (foldl mutate bare_task
      [AddAssignment ''p.x>5'' ''p.y=0'', AddAssignment ''p.z<1'' ''p.y=1'',
       SetTaskType ''movement'', RemoveAssignment 0])
     = reachedCount (foldl mutate bare_task
      [AddAssignment ''p.x>5'' ''p.y=0'', AddAssignment ''p.z<1'' ''p.y=1'',
       SetTaskType ''movement'', RemoveAssignment 0]) \<and>
   getAssignments (removeAssignment
      (addAssignment (addAssignment bare_task ''p.x>5'' ''p.y=0'') ''p.z<1'' ''p.y=1'') 0)
     = [\<lparr>aindex = 0, condition = ''p.z<1'', avalue = ''p.y=1''\<rparr>] \<and>
   map (\<lambda>a. (condition a, avalue a))
     (getAssignments (addAssignment (addAssignment bare_task ''p.x>5'' ''p.y=0'')
        ''p.z<1'' ''p.y=1''))
     = [(''p.x>5'', ''p.y=0''), (''p.z<1'', ''p.y=1'')] \<and>
   map (\<lambda>a. (condition a, avalue a))
     (getAssignments (removeAssignment
        (addAssignment (addAssignment bare_task ''p.x>5'' ''p.y=0'') ''p.z<1'' ''p.y=1'') 0))
     = [(''p.z<1'', ''p.y=1'')]"
proof -
  let ?two = "addAssignment (addAssignment bare_task ''p.x>5'' ''p.y=0'') ''p.z<1'' ''p.y=1''"
  let ?ms = "[AddAssignment ''p.x>5'' ''p.y=0'', AddAssignment ''p.z<1'' ''p.y=1'',
       SetTaskType ''movement'', RemoveAssignment 0]"
  have e: "conditionCount bare_task = reachedCount bare_task" by code_simp
  have z: "conditionCount bare_task = 0" by code_simp
  have e2: "conditionCount ?two = reachedCount ?two" by code_simp
  have i: "0 < conditionCount ?two" by code_simp
  have p: "map (\<lambda>a. (condition a, avalue a)) (getAssignments ?two)
     = [(''p.x>5'', ''p.y=0''), (''p.z<1'', ''p.y=1'')]" by code_simp
  from assignment_lists_stay_paired [OF e, of ?ms 0 "''p.x>5''" "''p.y=0''" "''p.z<1''"
      "''p.y=1''"] z
  have a: "conditionCount (foldl mutate bare_task ?ms) = reachedCount (foldl mutate bare_task ?ms)"
    and b: "getAssignments (removeAssignment ?two 0)
     = [\<lparr>aindex = 0, condition = ''p.z<1'', avalue = ''p.y=1''\<rparr>]"
    by simp_all
  from assignment_lists_stay_paired [OF e2, of "[]" 0] i
  have "map (\<lambda>a. (condition a, avalue a)) (getAssignments (removeAssignment ?two 0))
     = take 0 (map (\<lambda>a. (condition a, avalue a)) (getAssignments ?two)) @
       drop (Suc 0) (map (\<lambda>a. (condition a, avalue a)) (getAssignments ?two))"
    by simp
  then have c: "map (\<lambda>a. (condition a, avalue a)) (getAssignments (removeAssignment ?two 0))
     = [(''p.z<1'', ''p.y=1'')]"
    by (simp only: p) simp
  from e a b p c show ?thesis by simp
qed

end
